theory Spec2Isabelle
  imports Main
begin

section \<open>JavaScript values used by the flair scan\<close>

text \<open>
  The scan engine of \<^verbatim>\<open>UserFlairs.ts\<close> is embedded as state-passing functions
  over an explicit world. JavaScript strings are \<open>string\<close>, \<open>null\<close>/\<open>undefined\<close>
  are \<open>None\<close>, and the integer-valued numbers the engine counts with are \<open>int\<close>
  (the 53-bit precision of a double is not modelled). \<open>parseInt\<close> can return
  \<open>NaN\<close>, so the timeout is a number that may be \<open>NaN\<close>.
\<close>

datatype jsnum = NaN | Fin int

text \<open>White space as \<open>String.prototype.trim\<close> and \<open>parseInt\<close> strip it, for the
  code units below 256: TAB, LF, VT, FF, CR, SP and NBSP.\<close>

definition isWhiteSpace :: "char \<Rightarrow> bool" where
  "isWhiteSpace c = (of_char c \<in> {9, 10, 11, 12, 13, 32, 160 :: nat})"

definition trim :: "string \<Rightarrow> string" where
  "trim s = rev (dropWhile isWhiteSpace (rev (dropWhile isWhiteSpace s)))"

definition isDigit :: "char \<Rightarrow> bool" where
  "isDigit c = (48 \<le> (of_char c :: nat) \<and> (of_char c :: nat) \<le> 57)"

definition digitsValue :: "string \<Rightarrow> int" where
  "digitsValue ds = foldl (\<lambda>a c. 10 * a + (int (of_char c) - 48)) 0 ds"

text \<open>\<open>parseInt(s, 10)\<close>: leading white space is skipped, one sign is read, then
  the longest run of decimal digits; with no digit the result is \<open>NaN\<close>.\<close>

definition parseInt :: "string \<Rightarrow> jsnum" where
  "parseInt s =
     (let s1 = dropWhile isWhiteSpace s;
          neg = (case s1 of [] \<Rightarrow> False | c # _ \<Rightarrow> c = CHR ''-'');
          s2 = (case s1 of [] \<Rightarrow> [] | c # r \<Rightarrow> if c = CHR ''-'' \<or> c = CHR ''+'' then r else s1);
          ds = takeWhile isDigit s2
      in if ds = [] then NaN
         else Fin (if neg then - digitsValue ds else digitsValue ds))"

text \<open>A stored setting is a string or an integer-valued number; \<open>None\<close> is
  \<open>undefined\<close>. \<open>String(n)\<close> of an integer is its decimal numeral.\<close>

datatype sval = SNull | SStr string | SNum int

fun showNat :: "nat \<Rightarrow> string" where
  "showNat n = (if n < 10 then [''0123456789'' ! n] else showNat (n div 10) @ [''0123456789'' ! (n mod 10)])"

declare showNat.simps [simp del]

definition toString :: "int \<Rightarrow> string" where
  "toString i = (if i < 0 then CHR ''-'' # showNat (nat (- i)) else showNat (nat i))"

section \<open>main.ts: application settings\<close>

text \<open>\<open>getAppSettings\<close>:
  \<^verbatim>\<open>parseInt((await context.settings.get('devvitExecutionTimeoutSeconds')) as string ?? '30', 10)\<close>.
  The \<open>??\<close> replaces only \<open>null\<close> and \<open>undefined\<close>.\<close>

definition getAppSettings :: "(string \<Rightarrow> sval option) \<Rightarrow> jsnum" where
  "getAppSettings settings =
     parseInt (case settings ''devvitExecutionTimeoutSeconds'' of
                 None \<Rightarrow> ''30''
               | Some SNull \<Rightarrow> ''30''
               | Some (SStr s) \<Rightarrow> s
               | Some (SNum n) \<Rightarrow> toString n)"

definition DEFAULT_DEVVIT_TIMEOUT_SECONDS :: int where
  "DEFAULT_DEVVIT_TIMEOUT_SECONDS = 30"

definition SLEEP_BETWEEN_PAGES_MS :: int where
  "SLEEP_BETWEEN_PAGES_MS = 250"

text \<open>Line 115 of the chunk runner: the default is taken only when the setting is not
  of type \<open>number\<close>. \<open>getAppSettings\<close> always returns a number, and
  \<open>typeof NaN\<close> is \<open>"number"\<close>, so the value is used as it is.\<close>

definition timeoutSelection :: "jsnum option \<Rightarrow> jsnum" where
  "timeoutSelection devvitExecutionTimeoutSeconds =
     (case devvitExecutionTimeoutSeconds of
        None \<Rightarrow> Fin DEFAULT_DEVVIT_TIMEOUT_SECONDS
      | Some n \<Rightarrow> n)"

text \<open>\<open>isTimeRemaining\<close>: \<open>Date.now() - startTime < timeoutSeconds * 1000 * 0.9\<close>,
  with the product taken exactly (both sides times ten); every comparison with
  \<open>NaN\<close> is false.\<close>

definition isTimeRemaining :: "int \<Rightarrow> int \<Rightarrow> jsnum \<Rightarrow> bool" where
  "isTimeRemaining nowMs startTime timeoutSeconds =
     (case timeoutSeconds of
        NaN \<Rightarrow> False
      | Fin t \<Rightarrow> (nowMs - startTime) * 10 < t * 1000 * 9)"

section \<open>Data model\<close>

text \<open>A member of a page (\<open>UserFlair\<close>): both fields may be absent.\<close>

record UserFlair =
  user :: "string option"
  flairText :: "string option"

text \<open>What \<open>getUserFlair\<close> resolves to: \<open>users\<close> is \<open>None\<close> when the member
  list is missing or not an array; \<open>nextCursor\<close> is the field \<open>next\<close>.\<close>

record FlairResponse =
  users :: "UserFlair list option"
  nextCursor :: "string option"

text \<open>One call of the Page Source: it throws (with \<open>String(err)\<close>), or it returns a
  response, \<open>None\<close> standing for a falsy one.\<close>

datatype fetched = Throws string | Returns "FlairResponse option"

text \<open>\<open>FlairScanResult\<close>. In memory a group is a reference to an array (an address
  into the array store of the world); serialised to JSON it is the sequence itself.
  The keys of the object are kept in insertion order.\<close>

record 'g FlairScanResult =
  flairGroups :: "(string \<times> 'g) list"
  after :: "string option"
  timestamp :: int
  completed :: bool
  scannedUsers :: int
  lastPageNumber :: "int option"
  toastShown :: "bool option"

datatype jval =
    JBool bool
  | JNum int
  | JStr string
  | JScan "string list FlairScanResult"

datatype kvop = Get | Put | Delete

text \<open>What can be thrown: the error of a page fetch, the invalid-response error of
  line 151, the failure of a store operation, the \<open>TypeError\<close> of calling a method that
  is not there, and the failure of another call to the platform (reading the subreddit
  or the settings).\<close>

datatype error =
    PageFetchError string
  | InvalidResponse
  | KVError kvop string
  | TypeError string
  | PlatformError string

text \<open>\<open>String(err)\<close>.\<close>

fun errorMessage :: "error \<Rightarrow> string" where
  "errorMessage (PageFetchError msg) = msg"
| "errorMessage InvalidResponse = ''Invalid response from getUserFlair''"
| "errorMessage (KVError opn k) = ''kvStore failed key='' @ k"
| "errorMessage (TypeError msg) = msg"
| "errorMessage (PlatformError msg) = msg"

section \<open>The world: checkpoint store, array store, clock, Page Source\<close>

text \<open>
  The environment fixes what the platform does: the answer of the Page Source to its
  \<open>k\<close>-th call with a given cursor, how many milliseconds that call takes, which
  operations of the checkpoint store fail (by their running number), which of the other
  calls to the platform (reading the subreddit, reading the settings) fail and with what
  message (by their running number too), and the settings.
  The world is what changes: the key/value store, the arrays the flair groups refer to,
  the clock read by \<open>Date.now()\<close>, the number of store operations and of other platform
  calls so far, the calls made to the Page Source with their answers, and what
  \<open>console.error\<close> and \<open>console.warn\<close> printed. The clock moves by the latency of a
  fetch and by the sleep between pages; the other operations take no time. Toasts and
  \<open>console.log\<close> are left out, and the members of a page are objects of the declared
  type \<open>UserFlair\<close>.
\<close>

record env =
  source :: "nat \<Rightarrow> string option \<Rightarrow> fetched"
  latency :: "nat \<Rightarrow> nat"
  kvFault :: "nat \<Rightarrow> bool"
  platformFault :: "nat \<Rightarrow> string option"
  settings :: "string \<Rightarrow> sval option"

record world =
  kv :: "string \<Rightarrow> jval option"
  arrays :: "string list list"
  now :: int
  kvOps :: nat
  platformOps :: nat
  calls :: "(string option \<times> fetched) list"
  errlog :: "string list"

text \<open>A call to the platform other than the store and the Page Source
  (\<open>getCurrentSubreddit\<close>, \<open>settings.get\<close>): it rejects when the environment says so.\<close>

definition platformCall :: "env \<Rightarrow> world \<Rightarrow> (error + unit) \<times> world" where
  "platformCall e w =
     (case platformFault e (platformOps w) of
        Some msg \<Rightarrow> (Inl (PlatformError msg), w\<lparr>platformOps := Suc (platformOps w)\<rparr>)
      | None \<Rightarrow> (Inr (), w\<lparr>platformOps := Suc (platformOps w)\<rparr>))"

definition kvPut :: "env \<Rightarrow> string \<Rightarrow> jval \<Rightarrow> world \<Rightarrow> (error + unit) \<times> world" where
  "kvPut e k v w =
     (if kvFault e (kvOps w) then (Inl (KVError Put k), w\<lparr>kvOps := Suc (kvOps w)\<rparr>)
      else (Inr (), w\<lparr>kv := (kv w)(k \<mapsto> v), kvOps := Suc (kvOps w)\<rparr>))"

definition kvDelete :: "env \<Rightarrow> string \<Rightarrow> world \<Rightarrow> (error + unit) \<times> world" where
  "kvDelete e k w =
     (if kvFault e (kvOps w) then (Inl (KVError Delete k), w\<lparr>kvOps := Suc (kvOps w)\<rparr>)
      else (Inr (), w\<lparr>kv := (kv w)(k := None), kvOps := Suc (kvOps w)\<rparr>))"

definition kvGet :: "env \<Rightarrow> string \<Rightarrow> world \<Rightarrow> (error + jval option) \<times> world" where
  "kvGet e k w =
     (if kvFault e (kvOps w) then (Inl (KVError Get k), w\<lparr>kvOps := Suc (kvOps w)\<rparr>)
      else (Inr (kv w k), w\<lparr>kvOps := Suc (kvOps w)\<rparr>))"

text \<open>\<open>safeKVWrite\<close> and \<open>safeKVDelete\<close> catch the failure and log it. The value
  arrives already serialised (\<open>JSON.parse(JSON.stringify(value))\<close>).\<close>

definition safeKVWrite :: "env \<Rightarrow> string \<Rightarrow> jval \<Rightarrow> world \<Rightarrow> world" where
  "safeKVWrite e k v w =
     (case kvPut e k v w of
        (Inl err, w') \<Rightarrow> w'\<lparr>errlog := errlog w' @ [''safeKVWrite failed key='' @ k]\<rparr>
      | (Inr u, w') \<Rightarrow> w')"

definition safeKVDelete :: "env \<Rightarrow> string \<Rightarrow> world \<Rightarrow> world" where
  "safeKVDelete e k w =
     (case kvDelete e k w of
        (Inl err, w') \<Rightarrow> w'\<lparr>errlog := errlog w' @ [''safeKVDelete failed key='' @ k]\<rparr>
      | (Inr u, w') \<Rightarrow> w')"

text \<open>JavaScript truthiness of a stored value and of a cursor.\<close>

fun truthy :: "jval option \<Rightarrow> bool" where
  "truthy None = False"
| "truthy (Some (JBool b)) = b"
| "truthy (Some (JNum n)) = (n \<noteq> 0)"
| "truthy (Some (JStr s)) = (s \<noteq> [])"
| "truthy (Some (JScan c)) = True"

definition truthyStr :: "string option \<Rightarrow> bool" where
  "truthyStr s = (s \<noteq> None \<and> s \<noteq> Some [])"

text \<open>Serialising a result reads every group through the array store.\<close>

definition toJSON :: "string list list \<Rightarrow> nat FlairScanResult \<Rightarrow> string list FlairScanResult" where
  "toJSON arrs r =
     \<lparr>flairGroups = map (\<lambda>(f, a). (f, arrs ! a)) (flairGroups r),
      after = after r, timestamp = timestamp r, completed = completed r,
      scannedUsers = scannedUsers r, lastPageNumber = lastPageNumber r,
      toastShown = toastShown r\<rparr>"

section \<open>The chunk runner\<close>

text \<open>The property names every plain object inherits from \<open>Object.prototype\<close>. Read
  on an object that has no key of its own by that name, each gives a function or an
  object: a truthy value without a \<open>push\<close> method.\<close>

definition inheritedNames :: "string list" where
  "inheritedNames =
     [''constructor'', ''hasOwnProperty'', ''isPrototypeOf'', ''propertyIsEnumerable'',
      ''toLocaleString'', ''toString'', ''valueOf'', ''__proto__'', ''__defineGetter__'',
      ''__defineSetter__'', ''__lookupGetter__'', ''__lookupSetter__'']"

text \<open>
  The body of the loop over \<open>resp.users\<close> (lines 155 to 162). The label is
  \<open>(u.flairText || "").trim()\<close> and the identifier \<open>u.user ?? "Unknown"\<close>. A label
  that is a key of the aggregate has the identifier pushed onto the array it refers to,
  in place. A label that is not a key but names an inherited property reads as truthy on
  line 159, so no array is made for it, and the \<open>push\<close> of line 160 throws a
  \<open>TypeError\<close>. Any other new label gets a fresh array, which then receives the
  identifier.
\<close>

definition mergeUser ::
  "UserFlair \<Rightarrow> (string \<times> nat) list \<times> string list list \<times> int
     \<Rightarrow> error + (string \<times> nat) list \<times> string list list \<times> int" where
  "mergeUser u s =
     (case s of (groups, arrs, cumulativeUsers) \<Rightarrow>
        let uname = (case user u of None \<Rightarrow> ''Unknown'' | Some n \<Rightarrow> n);
            ftext = trim (case flairText u of None \<Rightarrow> [] | Some t \<Rightarrow> t)
        in if ftext = [] then Inr (groups, arrs, cumulativeUsers)
           else (case map_of groups ftext of
                   Some a \<Rightarrow>
                     Inr (groups, arrs[a := arrs ! a @ [uname]], cumulativeUsers + 1)
                 | None \<Rightarrow>
                     if ftext \<in> set inheritedNames
                     then Inl (TypeError ''cumulativeFlairGroups[ftext].push is not a function'')
                     else Inr (groups @ [(ftext, length arrs)], arrs @ [[uname]],
                               cumulativeUsers + 1)))"

text \<open>The loop itself: a throw ends it, and what was merged before stays merged.\<close>

fun mergeUsers ::
  "UserFlair list \<Rightarrow> (string \<times> nat) list \<times> string list list \<times> int
     \<Rightarrow> error option \<times> (string \<times> nat) list \<times> string list list \<times> int" where
  "mergeUsers [] s = (None, s)"
| "mergeUsers (u # us) s =
     (case mergeUser u s of
        Inl err \<Rightarrow> (Some err, s)
      | Inr s' \<Rightarrow> mergeUsers us s')"

record loopState =
  currentAfter :: "string option"
  pageNumber :: int
  cumulativeFlairGroups :: "(string \<times> nat) list"
  cumulativeUsers :: int

text \<open>How one pass through the body of \<open>do ... while (true)\<close> ends: it goes round
  again, it breaks on the time budget, it breaks with \<open>completed = true\<close>, or it
  throws.\<close>

datatype step = Continue | Break | Done | Throw error

text \<open>The three writes of the two failure paths (lines 139 to 141 and 148 to 150).\<close>

definition failScan :: "env \<Rightarrow> string \<Rightarrow> world \<Rightarrow> world" where
  "failScan e msg w =
     (let w1 = safeKVWrite e ''flairScanFailed'' (JBool True) w;
          w2 = safeKVWrite e ''flairScanFailedMessage'' (JStr msg) w1
      in safeKVWrite e ''flairScanInProgress'' (JBool False) w2)"

text \<open>
  One pass (lines 124 to 188). The page number is incremented first, then the time
  budget is checked, then the page is fetched with the current cursor. The fetch takes
  its latency, the sleep \<open>SLEEP_BETWEEN_PAGES_MS\<close>; the loop ends as completed when the
  new cursor is falsy (\<open>null\<close> or the empty string). A throw of the merge loop is not
  caught: it leaves the chunk with nothing written.
\<close>

definition pageStep :: "env \<Rightarrow> int \<Rightarrow> jsnum \<Rightarrow> loopState \<Rightarrow> world \<Rightarrow> step \<times> loopState \<times> world" where
  "pageStep e chunkStart timeoutSeconds st0 w =
     (let st = st0\<lparr>pageNumber := pageNumber st0 + 1\<rparr> in
      if \<not> isTimeRemaining (now w) chunkStart timeoutSeconds then (Break, st, w)
      else
        let resp = source e (length (calls w)) (currentAfter st);
            w1 = w\<lparr>calls := calls w @ [(currentAfter st, resp)],
                   now := now w + int (latency e (length (calls w)))\<rparr>
        in case resp of
             Throws msg \<Rightarrow>
               (Throw (PageFetchError msg), st,
                failScan e msg (w1\<lparr>errlog := errlog w1 @ [''Page fetch error: '' @ msg]\<rparr>))
           | Returns r \<Rightarrow>
               (case (case r of None \<Rightarrow> None | Some rp \<Rightarrow> users rp) of
                  None \<Rightarrow>
                    (Throw InvalidResponse, st,
                     failScan e ''Invalid response from getUserFlair''
                       (w1\<lparr>errlog := errlog w1 @ [''Invalid getUserFlair response'']\<rparr>))
                | Some us \<Rightarrow>
                    (case mergeUsers us (cumulativeFlairGroups st, arrays w1, cumulativeUsers st) of
                       (Some err, groups, arrs, n) \<Rightarrow>
                         (Throw err, st\<lparr>cumulativeFlairGroups := groups, cumulativeUsers := n\<rparr>,
                          w1\<lparr>arrays := arrs\<rparr>)
                     | (None, groups, arrs, n) \<Rightarrow>
                         let st2 = st\<lparr>currentAfter := (case r of None \<Rightarrow> None | Some rp \<Rightarrow> nextCursor rp),
                                      cumulativeFlairGroups := groups, cumulativeUsers := n\<rparr>;
                             w2 = safeKVWrite e ''flairScanHeartbeat'' (JNum (now w1)) (w1\<lparr>arrays := arrs\<rparr>);
                             w3 = w2\<lparr>now := now w2 + SLEEP_BETWEEN_PAGES_MS\<rparr>
                         in if \<not> truthyStr (currentAfter st2) then (Done, st2, w3)
                            else (Continue, st2, w3))))"

function chunkLoop :: "env \<Rightarrow> int \<Rightarrow> jsnum \<Rightarrow> loopState \<Rightarrow> world \<Rightarrow> step \<times> loopState \<times> world" where
  "chunkLoop e chunkStart timeoutSeconds st w =
     (let (s, st', w') = pageStep e chunkStart timeoutSeconds st w
      in if s = Continue then chunkLoop e chunkStart timeoutSeconds st' w' else (s, st', w'))"
  by pat_completeness auto

termination
proof (relation "measure (\<lambda>(e, chunkStart, tmo, st, w).
          case tmo of NaN \<Rightarrow> 0 | Fin t \<Rightarrow> nat (t * 9000 - (now w - chunkStart) * 10))")
  show "wf (measure (\<lambda>(e, chunkStart, tmo, st, w).
          case tmo of NaN \<Rightarrow> 0 | Fin t \<Rightarrow> nat (t * 9000 - (now w - chunkStart) * 10)))"
    by simp
next
  fix e :: env and chunkStart :: int and timeoutSeconds st w x s y st' w'
  assume "x = pageStep e chunkStart timeoutSeconds st w" "(s, y) = x" "(st', w') = y" "s = Continue"
  then have step: "pageStep e chunkStart timeoutSeconds st w = (Continue, st', w')"
    by simp
  have clock: "now (safeKVWrite e k v u) = now u" for k v u
    by (simp add: safeKVWrite_def kvPut_def)
  from step have "isTimeRemaining (now w) chunkStart timeoutSeconds \<and> now w + 250 \<le> now w'"
    by (auto simp: pageStep_def Let_def SLEEP_BETWEEN_PAGES_MS_def clock
             split: if_splits fetched.splits option.splits prod.splits)
  then show "((e, chunkStart, timeoutSeconds, st', w'), (e, chunkStart, timeoutSeconds, st, w))
          \<in> measure (\<lambda>(e, chunkStart, tmo, st, w).
                case tmo of NaN \<Rightarrow> 0 | Fin t \<Rightarrow> nat (t * 9000 - (now w - chunkStart) * 10))"
    by (auto simp: isTimeRemaining_def split: jsnum.splits)
qed

declare chunkLoop.simps [simp del]

text \<open>Lines 204 to 214: the final result goes under \<open>flairScanResult\<close>, a partial one
  under \<open>flairScanPartial\<close>.\<close>

definition persist :: "env \<Rightarrow> nat FlairScanResult \<Rightarrow> world \<Rightarrow> world" where
  "persist e result w =
     (if completed result then
        let w1 = safeKVWrite e ''flairScanResult'' (JScan (toJSON (arrays w) result)) w;
            w2 = safeKVWrite e ''flairScanCompletedAt'' (JNum (now w1)) w1;
            w3 = safeKVWrite e ''flairScanInProgress'' (JBool False) w2;
            w4 = safeKVWrite e ''flairScanFailed'' (JBool False) w3
        in safeKVDelete e ''flairScanPartial'' w4
      else
        let w1 = safeKVWrite e ''flairScanPartial'' (JScan (toJSON (arrays w) result)) w
        in safeKVWrite e ''flairScanInProgress'' (JBool True) w1)"

text \<open>
  \<open>buildFlairGroupsPaginatedChunk\<close>. The spread \<open>{ ...cumulativeFlairGroupsStart }\<close>
  copies the table of keys, which the model passes by value; the arrays the keys refer
  to stay where they are in the array store. Reading the subreddit (line 107) and the
  settings (line 114, inside \<open>getAppSettings\<close>) can reject, and the read of
  \<open>flairScanStartedAt\<close> on line 192 is a bare \<open>kvStore.get\<close>: none of the three is
  caught.
\<close>

definition buildFlairGroupsPaginatedChunk ::
  "env \<Rightarrow> string option \<Rightarrow> (string \<times> nat) list \<Rightarrow> int \<Rightarrow> int \<Rightarrow> world
     \<Rightarrow> (error + nat FlairScanResult) \<times> world" where
  "buildFlairGroupsPaginatedChunk e after0 cumulativeFlairGroupsStart scannedUsersStart startPageNumber w0 =
     (case platformCall e w0 of
        (Inl err, wa) \<Rightarrow> (Inl err, wa)
      | (Inr subreddit, wa) \<Rightarrow>
          (case platformCall e wa of
             (Inl err, w) \<Rightarrow> (Inl err, w)
           | (Inr got, w) \<Rightarrow>
               let timeoutSeconds = timeoutSelection (Some (getAppSettings (settings e)));
                   chunkStart = now w
               in case chunkLoop e chunkStart timeoutSeconds
                         \<lparr>currentAfter = after0, pageNumber = startPageNumber,
                          cumulativeFlairGroups = cumulativeFlairGroupsStart,
                          cumulativeUsers = scannedUsersStart\<rparr> w of
                    (s, st, w1) \<Rightarrow>
                      (case s of
                         Throw err \<Rightarrow> (Inl err, w1)
                       | _ \<Rightarrow>
                           (case kvGet e ''flairScanStartedAt'' w1 of
                              (Inl err, w2) \<Rightarrow> (Inl err, w2)
                            | (Inr startTimestampRaw, w2) \<Rightarrow>
                                let result =
                                      \<lparr>flairGroups = cumulativeFlairGroups st,
                                       after = currentAfter st,
                                       timestamp = (case startTimestampRaw of
                                                      Some (JNum t) \<Rightarrow> t | _ \<Rightarrow> now w2),
                                       completed = (s = Done),
                                       scannedUsers = cumulativeUsers st,
                                       lastPageNumber = Some (pageNumber st),
                                       toastShown = None\<rparr>
                                in (Inr result, persist e result w2)))))"

text \<open>\<open>continueScan\<close> resumes from a checkpoint; the initial checkpoint is the one
  \<open>startQuickScan\<close> and the menu write for a new generation.\<close>

definition continueScan :: "env \<Rightarrow> nat FlairScanResult \<Rightarrow> world \<Rightarrow> (error + nat FlairScanResult) \<times> world" where
  "continueScan e partial w =
     buildFlairGroupsPaginatedChunk e (after partial) (flairGroups partial) (scannedUsers partial)
       (case lastPageNumber partial of None \<Rightarrow> 0 | Some p \<Rightarrow> p) w"

definition initialPartial :: "int \<Rightarrow> nat FlairScanResult" where
  "initialPartial t =
     \<lparr>flairGroups = [], after = None, timestamp = t, completed = False,
      scannedUsers = 0, lastPageNumber = Some 0, toastShown = Some False\<rparr>"

text \<open>A sequence of chunk invocations of one generation: each chunk starts from the
  checkpoint the previous one returned, and a thrown error ends the sequence.\<close>

fun runChunks :: "env \<Rightarrow> nat \<Rightarrow> nat FlairScanResult \<Rightarrow> world \<Rightarrow> (error + nat FlairScanResult) \<times> world" where
  "runChunks e 0 cp w = (Inr cp, w)"
| "runChunks e (Suc n) cp w =
     (case continueScan e cp w of
        (Inl err, w') \<Rightarrow> (Inl err, w')
      | (Inr cp', w') \<Rightarrow> runChunks e n cp' w')"

section \<open>Reset and classification\<close>

text \<open>\<open>clearScan\<close> (lines 465 to 478) deletes six keys through \<open>safeKVDelete\<close>.\<close>

definition clearScan :: "env \<Rightarrow> world \<Rightarrow> world" where
  "clearScan e w =
     (let w1 = safeKVDelete e ''flairScanPartial'' w;
          w2 = safeKVDelete e ''flairScanResult'' w1;
          w3 = safeKVDelete e ''flairScanInProgress'' w2;
          w4 = safeKVDelete e ''flairScanFailed'' w3;
          w5 = safeKVDelete e ''flairScanFailedMessage'' w4
      in safeKVDelete e ''flairScanStartedAt'' w5)"

text \<open>\<open>resetFlairScanIfAppUpdated\<close>: a failing read of \<open>appVersion\<close> is caught and
  nothing is cleared.\<close>

definition resetFlairScanIfAppUpdated :: "env \<Rightarrow> string \<Rightarrow> world \<Rightarrow> world" where
  "resetFlairScanIfAppUpdated e currentVersion w =
     (case kvGet e ''appVersion'' w of
        (Inl err, w1) \<Rightarrow> w1\<lparr>errlog := errlog w1 @ [''Could not check/reset app version KV'']\<rparr>
      | (Inr lastVersionRaw, w1) \<Rightarrow>
          let lastVersion = (case lastVersionRaw of Some (JStr v) \<Rightarrow> Some v | _ \<Rightarrow> None)
          in if lastVersion \<noteq> Some currentVersion
             then safeKVWrite e ''appVersion'' (JStr currentVersion) (clearScan e w1)
             else w1)"

text \<open>The classification the form shows in its title, from the flags the menu reads
  (lines 299 to 305 and 375 to 382), and the test the menu makes before it shows a form
  at all (line 385).\<close>

datatype scanState = NoScan | Running | Failed | Completed

definition classify :: "world \<Rightarrow> scanState" where
  "classify w =
     (let full = truthy (kv w ''flairScanResult'');
          scanRunning = truthy (kv w ''flairScanInProgress'');
          failedScan = truthy (kv w ''flairScanFailed'')
      in if scanRunning then Running
         else if failedScan then Failed
         else if full then Completed
         else NoScan)"

definition anyScanState :: "world \<Rightarrow> bool" where
  "anyScanState w =
     (truthy (kv w ''flairScanInProgress'') \<or> truthy (kv w ''flairScanPartial'')
      \<or> truthy (kv w ''flairScanResult'') \<or> truthy (kv w ''flairScanFailed''))"

section \<open>Notions the properties are stated with\<close>

text \<open>The members of all pages among some calls of the Page Source; the label the
  merge loop tests and groups by (line 157); and the test in the words of the
  specification, a label that is present and not the empty string.\<close>

fun pageMembers :: "fetched \<Rightarrow> UserFlair list" where
  "pageMembers (Returns (Some r)) = (case users r of None \<Rightarrow> [] | Some us \<Rightarrow> us)"
| "pageMembers (Returns None) = []"
| "pageMembers (Throws msg) = []"

definition membersOf :: "(string option \<times> fetched) list \<Rightarrow> UserFlair list" where
  "membersOf cs = concat (map (\<lambda>c. pageMembers (snd c)) cs)"

definition trimmedLabel :: "UserFlair \<Rightarrow> string" where
  "trimmedLabel u = trim (case flairText u of None \<Rightarrow> [] | Some t \<Rightarrow> t)"

definition hasNonEmptyLabel :: "UserFlair \<Rightarrow> bool" where
  "hasNonEmptyLabel u = (flairText u \<noteq> None \<and> flairText u \<noteq> Some [])"

text \<open>The number of members, over the pages of some calls, that the merge loop accepts.\<close>

definition validCount :: "(string option \<times> fetched) list \<Rightarrow> int" where
  "validCount cs = int (length (filter (\<lambda>u. trimmedLabel u \<noteq> []) (membersOf cs)))"

text \<open>The calls made between two worlds.\<close>

definition callsSince :: "world \<Rightarrow> world \<Rightarrow> (string option \<times> fetched) list" where
  "callsSince w w' = drop (length (calls w)) (calls w')"

text \<open>A call that fails the scan, and the error it makes the chunk throw.\<close>

fun badPage :: "fetched \<Rightarrow> bool" where
  "badPage (Throws msg) = True"
| "badPage (Returns None) = True"
| "badPage (Returns (Some r)) = (users r = None)"

fun pageError :: "fetched \<Rightarrow> error" where
  "pageError (Throws msg) = PageFetchError msg"
| "pageError (Returns r) = InvalidResponse"

text \<open>\<open>aggregate[label]\<close> read through the array store; an aggregate is well formed
  when its keys are distinct and every key has an allocated array of its own; the
  number of identifiers it holds.\<close>

definition lookupGroup :: "(string \<times> nat) list \<Rightarrow> string list list \<Rightarrow> string \<Rightarrow> string list option" where
  "lookupGroup groups arrs f = map_option (\<lambda>a. arrs ! a) (map_of groups f)"

definition groupsWf :: "(string \<times> nat) list \<Rightarrow> string list list \<Rightarrow> bool" where
  "groupsWf groups arrs =
     (distinct (map fst groups) \<and> distinct (map snd groups) \<and> list_all (\<lambda>p. snd p < length arrs) groups)"

definition totalIds :: "(string \<times> nat) list \<Rightarrow> string list list \<Rightarrow> int" where
  "totalIds groups arrs = int (sum_list (map (\<lambda>p. length (arrs ! snd p)) groups))"

definition terminalOK :: "'g FlairScanResult \<Rightarrow> bool" where
  "terminalOK c = (\<not> completed c \<or> after c = None \<or> after c = Some [])"

text \<open>What the world looks like after a failed page, seen from the world the chunk
  started in: the last call was the bad one, and the last three store operations were
  the writes of the failure path, each of which either went through or left its key as
  it was.\<close>

definition failureRecorded :: "env \<Rightarrow> world \<Rightarrow> world \<Rightarrow> bool" where
  "failureRecorded e w w' =
     (calls w' \<noteq> [] \<and> badPage (snd (last (calls w'))) \<and> kvOps w + 3 \<le> kvOps w'
      \<and> kv w' ''flairScanFailed''
          = (if kvFault e (kvOps w' - 3) then kv w ''flairScanFailed'' else Some (JBool True))
      \<and> kv w' ''flairScanFailedMessage''
          = (if kvFault e (kvOps w' - 2) then kv w ''flairScanFailedMessage''
             else Some (JStr (errorMessage (pageError (snd (last (calls w')))))))
      \<and> kv w' ''flairScanInProgress''
          = (if kvFault e (kvOps w' - 1) then kv w ''flairScanInProgress'' else Some (JBool False)))"

text \<open>The keys \<open>clearScan\<close> deletes, and the version the guard compares with
  (line 454).\<close>

definition clearedKeys :: "string list" where
  "clearedKeys =
     [''flairScanPartial'', ''flairScanResult'', ''flairScanInProgress'', ''flairScanFailed'',
      ''flairScanFailedMessage'', ''flairScanStartedAt'']"

definition storedVersion :: "world \<Rightarrow> string option" where
  "storedVersion w = (case kv w ''appVersion'' of Some (JStr v) \<Rightarrow> Some v | _ \<Rightarrow> None)"

text \<open>The same platform with a store that never fails, and two worlds that agree on
  everything the chunk computes with: arrays, clock, calls and the stored start of the
  generation.\<close>

definition healthyStore :: "env \<Rightarrow> env" where
  "healthyStore e = e\<lparr>kvFault := (\<lambda>i. False)\<rparr>"

definition sameButStore :: "world \<Rightarrow> world \<Rightarrow> bool" where
  "sameButStore w1 w2 =
     (arrays w1 = arrays w2 \<and> now w1 = now w2 \<and> calls w1 = calls w2
      \<and> kv w1 ''flairScanStartedAt'' = kv w2 ''flairScanStartedAt'')"

section \<open>Concrete platforms\<close>

definition mkMember :: "string \<Rightarrow> string \<Rightarrow> UserFlair" where
  "mkMember u f = \<lparr>user = Some u, flairText = Some f\<rparr>"

definition mkPage :: "UserFlair list \<Rightarrow> string option \<Rightarrow> fetched" where
  "mkPage us nxt = Returns (Some \<lparr>users = Some us, nextCursor = nxt\<rparr>)"

text \<open>A platform that answers the \<open>k\<close>-th call with the \<open>k\<close>-th outcome of a list
  (an empty last page after that), takes the listed time for it, whose store fails when
  \<open>down\<close>, and whose other calls never fail.\<close>

definition mkEnv :: "fetched list \<Rightarrow> nat list \<Rightarrow> bool \<Rightarrow> sval option \<Rightarrow> env" where
  "mkEnv pages delays down timeoutSetting =
     \<lparr>source = (\<lambda>k c. if k < length pages then pages ! k else mkPage [] None),
      latency = (\<lambda>k. if k < length delays then delays ! k else 0),
      kvFault = (\<lambda>i. down),
      platformFault = (\<lambda>i. None),
      settings = (\<lambda>k. if k = ''devvitExecutionTimeoutSeconds'' then timeoutSetting else None)\<rparr>"

definition world0 :: world where
  "world0 =
     \<lparr>kv = (\<lambda>k. None), arrays = [], now = 0, kvOps = 0, platformOps = 0, calls = [],
      errlog = []\<rparr>"

definition scenarioPages :: "fetched list" where
  "scenarioPages =
     [mkPage [mkMember ''u1'' ''gold'', mkMember ''u2'' ''gold'', mkMember ''u3'' ''silver''] (Some ''c1''),
      mkPage [mkMember ''u4'' ''gold'', mkMember ''u5'' ''silver'', mkMember ''u6'' ''silver''] None]"

text \<open>A page with a member whose label is a single space.\<close>

definition blankPages :: "fetched list" where
  "blankPages = [mkPage [mkMember ''u1'' ''gold'', mkMember ''u2'' '' ''] None]"

text \<open>A source whose second page throws, and a store that holds a completed scan of an
  earlier generation.\<close>

definition failingPages :: "fetched list" where
  "failingPages =
     [mkPage [mkMember ''u1'' ''gold'', mkMember ''u2'' ''gold'', mkMember ''u3'' ''silver''] (Some ''c1''),
      Throws ''Error: network'']"

definition oldResult :: "string list FlairScanResult" where
  "oldResult =
     \<lparr>flairGroups = [(''bronze'', [''u0''])], after = None, timestamp = 1, completed = True,
      scannedUsers = 1, lastPageNumber = Some 1, toastShown = None\<rparr>"

definition completedWorld :: world where
  "completedWorld =
     world0\<lparr>kv := [''flairScanResult'' \<mapsto> JScan oldResult, ''flairScanCompletedAt'' \<mapsto> JNum 7,
                     ''flairScanHeartbeat'' \<mapsto> JNum 5, ''appVersion'' \<mapsto> JStr ''1.0'']\<rparr>"

text \<open>A caller whose aggregate already has a group for \<open>gold\<close>, and a page with one
  more member of that group.\<close>

definition aliasWorld :: world where
  "aliasWorld = world0\<lparr>arrays := [[''a'']]\<rparr>"

definition goldPage :: "fetched list" where
  "goldPage = [mkPage [mkMember ''b'' ''gold''] None]"

text \<open>A page whose next cursor is the empty string.\<close>

definition emptyCursorPage :: "fetched list" where
  "emptyCursorPage = [mkPage [mkMember ''u1'' ''gold''] (Some [])]"

section \<open>Basic facts about the store wrappers and the loop\<close>

lemmas run_defs =
  continueScan_def buildFlairGroupsPaginatedChunk_def initialPartial_def world0_def mkEnv_def
  chunkLoop.simps pageStep_def timeoutSelection_def getAppSettings_def parseInt_def
  isWhiteSpace_def isDigit_def digitsValue_def isTimeRemaining_def mkPage_def mkMember_def
  mergeUser_def inheritedNames_def trim_def truthyStr_def safeKVWrite_def kvPut_def kvGet_def
  kvDelete_def safeKVDelete_def persist_def SLEEP_BETWEEN_PAGES_MS_def failScan_def toJSON_def
  platformCall_def Let_def

lemma safeKVWrite_frame [simp]:
  "now (safeKVWrite e k v w) = now w"
  "arrays (safeKVWrite e k v w) = arrays w"
  "calls (safeKVWrite e k v w) = calls w"
  "kvOps (safeKVWrite e k v w) = Suc (kvOps w)"
  by (simp_all add: safeKVWrite_def kvPut_def)

lemma safeKVDelete_frame [simp]:
  "now (safeKVDelete e k w) = now w"
  "arrays (safeKVDelete e k w) = arrays w"
  "calls (safeKVDelete e k w) = calls w"
  "kvOps (safeKVDelete e k w) = Suc (kvOps w)"
  by (simp_all add: safeKVDelete_def kvDelete_def)

lemma safeKVWrite_kv:
  "kv (safeKVWrite e k v w) = (if kvFault e (kvOps w) then kv w else (kv w)(k \<mapsto> v))"
  by (simp add: safeKVWrite_def kvPut_def)

lemma safeKVDelete_kv:
  "kv (safeKVDelete e k w) = (if kvFault e (kvOps w) then kv w else (kv w)(k := None))"
  by (simp add: safeKVDelete_def kvDelete_def)

lemma safeKVWrite_other: "k' \<noteq> k \<Longrightarrow> kv (safeKVWrite e k v w) k' = kv w k'"
  by (simp add: safeKVWrite_kv)

lemma failScan_frame [simp]:
  "now (failScan e msg w) = now w"
  "arrays (failScan e msg w) = arrays w"
  "calls (failScan e msg w) = calls w"
  "kvOps (failScan e msg w) = kvOps w + 3"
  by (simp_all add: failScan_def Let_def)

lemma failScan_kv:
  "kv (failScan e msg w) ''flairScanFailed''
     = (if kvFault e (kvOps w) then kv w ''flairScanFailed'' else Some (JBool True))"
  "kv (failScan e msg w) ''flairScanFailedMessage''
     = (if kvFault e (kvOps w + 1) then kv w ''flairScanFailedMessage'' else Some (JStr msg))"
  "kv (failScan e msg w) ''flairScanInProgress''
     = (if kvFault e (kvOps w + 2) then kv w ''flairScanInProgress'' else Some (JBool False))"
  by (simp_all add: failScan_def Let_def safeKVWrite_kv)

lemma failScan_other:
  "k \<notin> {''flairScanFailed'', ''flairScanFailedMessage'', ''flairScanInProgress''}
     \<Longrightarrow> kv (failScan e msg w) k = kv w k"
  by (simp add: failScan_def Let_def safeKVWrite_kv)

lemma kvGet_frame:
  "kvGet e k w = (r, w') \<Longrightarrow> now w' = now w \<and> arrays w' = arrays w \<and> calls w' = calls w \<and> kv w' = kv w"
  by (auto simp: kvGet_def split: if_splits)

lemma persist_frame [simp]:
  "now (persist e r w) = now w"
  "arrays (persist e r w) = arrays w"
  "calls (persist e r w) = calls w"
  by (simp_all add: persist_def Let_def)

text \<open>The ways one pass can end, with what each leaves behind.\<close>

lemma pageStep_cases [consumes 1, case_names budget fetchThrows invalid mergeThrows merged]:
  assumes "pageStep e cs t st w = (s, st', w')"
  obtains
    (budget) "\<not> isTimeRemaining (now w) cs t" "s = Break"
      "st' = st\<lparr>pageNumber := pageNumber st + 1\<rparr>" "w' = w"
  | (fetchThrows) msg wx where "isTimeRemaining (now w) cs t"
      "source e (length (calls w)) (currentAfter st) = Throws msg"
      "s = Throw (PageFetchError msg)" "st' = st\<lparr>pageNumber := pageNumber st + 1\<rparr>"
      "w' = failScan e msg wx" "kv wx = kv w" "kvOps wx = kvOps w" "arrays wx = arrays w"
      "calls wx = calls w @ [(currentAfter st, Throws msg)]"
  | (invalid) r wx where "isTimeRemaining (now w) cs t"
      "source e (length (calls w)) (currentAfter st) = Returns r"
      "(case r of None \<Rightarrow> None | Some rp \<Rightarrow> users rp) = None"
      "s = Throw InvalidResponse" "st' = st\<lparr>pageNumber := pageNumber st + 1\<rparr>"
      "w' = failScan e ''Invalid response from getUserFlair'' wx"
      "kv wx = kv w" "kvOps wx = kvOps w" "arrays wx = arrays w"
      "calls wx = calls w @ [(currentAfter st, Returns r)]"
  | (mergeThrows) rp us err g arrs n where "isTimeRemaining (now w) cs t"
      "source e (length (calls w)) (currentAfter st) = Returns (Some rp)" "users rp = Some us"
      "mergeUsers us (cumulativeFlairGroups st, arrays w, cumulativeUsers st) = (Some err, g, arrs, n)"
      "s = Throw err" "cumulativeFlairGroups st' = g" "cumulativeUsers st' = n"
      "pageNumber st' = pageNumber st + 1"
      "kv w' = kv w" "kvOps w' = kvOps w" "arrays w' = arrs"
      "calls w' = calls w @ [(currentAfter st, Returns (Some rp))]"
  | (merged) rp us g arrs n where "isTimeRemaining (now w) cs t"
      "source e (length (calls w)) (currentAfter st) = Returns (Some rp)" "users rp = Some us"
      "mergeUsers us (cumulativeFlairGroups st, arrays w, cumulativeUsers st) = (None, g, arrs, n)"
      "s = (if truthyStr (nextCursor rp) then Continue else Done)"
      "currentAfter st' = nextCursor rp" "cumulativeFlairGroups st' = g" "cumulativeUsers st' = n"
      "pageNumber st' = pageNumber st + 1"
      "kv w' = (if kvFault e (kvOps w) then kv w
                else (kv w)(''flairScanHeartbeat'' \<mapsto> JNum (now w + int (latency e (length (calls w))))))"
      "kvOps w' = Suc (kvOps w)" "arrays w' = arrs"
      "calls w' = calls w @ [(currentAfter st, Returns (Some rp))]"
proof (cases "isTimeRemaining (now w) cs t")
  case False
  with assms show ?thesis
    by (intro budget) (auto simp: pageStep_def Let_def)
next
  case time: True
  show ?thesis
  proof (cases "source e (length (calls w)) (currentAfter st)")
    case (Throws msg)
    let ?wx = "w\<lparr>calls := calls w @ [(currentAfter st, Throws msg)],
                 now := now w + int (latency e (length (calls w))),
                 errlog := errlog w @ [''Page fetch error: '' @ msg]\<rparr>"
    from assms time Throws show ?thesis
      by (intro fetchThrows [of msg ?wx]) (auto simp: pageStep_def Let_def)
  next
    case (Returns r)
    show ?thesis
    proof (cases "case r of None \<Rightarrow> None | Some rp \<Rightarrow> users rp")
      case None
      let ?wx = "w\<lparr>calls := calls w @ [(currentAfter st, Returns r)],
                   now := now w + int (latency e (length (calls w))),
                   errlog := errlog w @ [''Invalid getUserFlair response'']\<rparr>"
      from assms time Returns None show ?thesis
        by (intro invalid [of r ?wx]) (auto simp: pageStep_def Let_def)
    next
      case (Some us)
      then obtain rp where rp: "r = Some rp" "users rp = Some us"
        by (cases r) auto
      obtain err g arrs n where
        m: "mergeUsers us (cumulativeFlairGroups st, arrays w, cumulativeUsers st) = (err, g, arrs, n)"
        by (cases "mergeUsers us (cumulativeFlairGroups st, arrays w, cumulativeUsers st)") auto
      show ?thesis
      proof (cases err)
        case None
        with assms time Returns rp m show ?thesis
          by (intro merged [of rp us g arrs n])
             (auto simp: pageStep_def Let_def safeKVWrite_kv split: if_splits)
      next
        case (Some x)
        with assms time Returns rp m show ?thesis
          by (intro mergeThrows [of rp us x g arrs n]) (auto simp: pageStep_def Let_def)
      qed
    qed
  qed
qed

text \<open>A proof rule for the loop: a property of the state at the head of the loop holds
  if it holds before the pass that leaves the loop and is carried backwards over every
  pass that goes round again.\<close>

lemma chunkLoop_rule:
  assumes run: "chunkLoop e cs t st w = (s, st', w')"
    and base: "\<And>st w. pageStep e cs t st w = (s, st', w') \<Longrightarrow> s \<noteq> Continue \<Longrightarrow> Q st w"
    and ind: "\<And>st w st1 w1. pageStep e cs t st w = (Continue, st1, w1) \<Longrightarrow> Q st1 w1 \<Longrightarrow> Q st w"
  shows "Q st w"
  using run base ind
proof (induction e cs t st w rule: chunkLoop.induct)
  case (1 e cs t st w)
  note run = "1.prems"(1) and base = "1.prems"(2) and ind = "1.prems"(3)
  obtain s1 st1 w1 where ps: "pageStep e cs t st w = (s1, st1, w1)"
    by (cases "pageStep e cs t st w") auto
  show ?case
  proof (cases "s1 = Continue")
    case True
    with ps run have "chunkLoop e cs t st1 w1 = (s, st', w')"
      by (simp add: chunkLoop.simps [of e cs t st w])
    then have "Q st1 w1"
      using "1.IH" [OF ps [symmetric] refl refl True] base ind by blast
    then show ?thesis
      using ind ps True by blast
  next
    case False
    with ps run have "(s1, st1, w1) = (s, st', w')"
      by (simp add: chunkLoop.simps [of e cs t st w])
    then show ?thesis
      using base ps False by blast
  qed
qed

lemma chunkLoop_not_Continue:
  "chunkLoop e cs t st w = (s, st', w') \<Longrightarrow> s \<noteq> Continue"
  by (rule chunkLoop_rule [where Q = "\<lambda>st w. s \<noteq> Continue"])

text \<open>The ways a chunk can end: a platform call rejects before the loop, the loop throws,
  the read after the loop fails, or a checkpoint is returned and persisted.\<close>

lemma chunk_cases [consumes 1, case_names platform thrown readFailed returned]:
  assumes "buildFlairGroupsPaginatedChunk e a g n p w0 = (r, w')"
  obtains
    (platform) msg where "r = Inl (PlatformError msg)" "kv w' = kv w0" "arrays w' = arrays w0"
      "now w' = now w0" "calls w' = calls w0" "kvOps w' = kvOps w0"
  | (thrown) w err st1 where "w = w0\<lparr>platformOps := Suc (Suc (platformOps w0))\<rparr>"
      "chunkLoop e (now w) (timeoutSelection (Some (getAppSettings (settings e))))
         \<lparr>currentAfter = a, pageNumber = p, cumulativeFlairGroups = g, cumulativeUsers = n\<rparr> w
         = (Throw err, st1, w')"
      "r = Inl err"
  | (readFailed) w s st1 w1 where "w = w0\<lparr>platformOps := Suc (Suc (platformOps w0))\<rparr>"
      "chunkLoop e (now w) (timeoutSelection (Some (getAppSettings (settings e))))
         \<lparr>currentAfter = a, pageNumber = p, cumulativeFlairGroups = g, cumulativeUsers = n\<rparr> w
         = (s, st1, w1)"
      "s = Break \<or> s = Done" "kvFault e (kvOps w1)"
      "r = Inl (KVError Get ''flairScanStartedAt'')" "w' = w1\<lparr>kvOps := Suc (kvOps w1)\<rparr>"
  | (returned) w s st1 w1 cp where "w = w0\<lparr>platformOps := Suc (Suc (platformOps w0))\<rparr>"
      "chunkLoop e (now w) (timeoutSelection (Some (getAppSettings (settings e))))
         \<lparr>currentAfter = a, pageNumber = p, cumulativeFlairGroups = g, cumulativeUsers = n\<rparr> w
         = (s, st1, w1)"
      "s = Break \<or> s = Done" "\<not> kvFault e (kvOps w1)" "r = Inr cp"
      "flairGroups cp = cumulativeFlairGroups st1" "after cp = currentAfter st1"
      "completed cp = (s = Done)" "scannedUsers cp = cumulativeUsers st1"
      "lastPageNumber cp = Some (pageNumber st1)"
      "w' = persist e cp (w1\<lparr>kvOps := Suc (kvOps w1)\<rparr>)"
proof (cases "platformFault e (platformOps w0)")
  case (Some msg)
  with assms show ?thesis
    by (intro platform [of msg])
       (auto simp: buildFlairGroupsPaginatedChunk_def platformCall_def)
next
  case first: None
  show ?thesis
  proof (cases "platformFault e (Suc (platformOps w0))")
    case (Some msg)
    with assms first show ?thesis
      by (intro platform [of msg])
         (auto simp: buildFlairGroupsPaginatedChunk_def platformCall_def)
  next
    case second: None
    let ?w = "w0\<lparr>platformOps := Suc (Suc (platformOps w0))\<rparr>"
    let ?t = "timeoutSelection (Some (getAppSettings (settings e)))"
    let ?st = "\<lparr>currentAfter = a, pageNumber = p, cumulativeFlairGroups = g, cumulativeUsers = n\<rparr>"
    obtain s st1 w1 where loop: "chunkLoop e (now ?w) ?t ?st ?w = (s, st1, w1)"
      by (cases "chunkLoop e (now ?w) ?t ?st ?w") auto
    then have loop': "chunkLoop e (now w0) ?t ?st ?w = (s, st1, w1)"
      by simp
    from assms first second loop have run:
      "(case s of
          Throw err \<Rightarrow> (Inl err, w1)
        | _ \<Rightarrow>
            (case kvGet e ''flairScanStartedAt'' w1 of
               (Inl err, w2) \<Rightarrow> (Inl err, w2)
             | (Inr startTimestampRaw, w2) \<Rightarrow>
                 let result =
                       \<lparr>flairGroups = cumulativeFlairGroups st1, after = currentAfter st1,
                        timestamp = (case startTimestampRaw of Some (JNum t) \<Rightarrow> t | _ \<Rightarrow> now w2),
                        completed = (s = Done), scannedUsers = cumulativeUsers st1,
                        lastPageNumber = Some (pageNumber st1), toastShown = None\<rparr>
                 in (Inr result, persist e result w2))) = (r, w')"
      by (simp add: buildFlairGroupsPaginatedChunk_def platformCall_def)
    show ?thesis
    proof (cases "\<exists>err. s = Throw err")
      case True
      then obtain err where "s = Throw err" by blast
      with run loop' loop show ?thesis
        by (intro thrown [of ?w err st1]) (auto simp: Let_def)
    next
      case False
      with chunkLoop_not_Continue [OF loop] have s: "s = Break \<or> s = Done"
        by (cases s) auto
      show ?thesis
      proof (cases "kvFault e (kvOps w1)")
        case True
        with run loop' loop s show ?thesis
          by (intro readFailed [of ?w s st1 w1]) (auto simp: Let_def kvGet_def)
      next
        case False
        with run loop' loop s show ?thesis
          by (intro returned [of ?w s st1 w1 "fst (projr r, ())"]) (auto simp: Let_def kvGet_def)
      qed
    qed
  qed
qed

lemma validCount_simps [simp]:
  "validCount [] = 0"
  "validCount (xs @ ys) = validCount xs + validCount ys"
  by (simp_all add: validCount_def membersOf_def)

section \<open>The count of scanned members\<close>

lemma mergeUser_count:
  "mergeUser u (g, arrs, n) = Inr (g', arrs', n')
     \<Longrightarrow> n' = n + (if trimmedLabel u \<noteq> [] then 1 else 0)"
  by (auto simp: mergeUser_def trimmedLabel_def Let_def split: if_splits option.splits)

lemma mergeUsers_count:
  "mergeUsers us (g, arrs, n) = (None, g', arrs', n')
     \<Longrightarrow> n' = n + int (length (filter (\<lambda>u. trimmedLabel u \<noteq> []) us))"
proof (induction us arbitrary: g arrs n)
  case Nil
  then show ?case by simp
next
  case (Cons u us)
  from Cons.prems obtain g1 arrs1 n1 where
    m: "mergeUser u (g, arrs, n) = Inr (g1, arrs1, n1)"
    and rest: "mergeUsers us (g1, arrs1, n1) = (None, g', arrs', n')"
    by (auto split: sum.splits)
  from mergeUser_count [OF m] Cons.IH [OF rest] show ?case
    by simp
qed

lemma pageStep_count:
  assumes "pageStep e cs t st w = (s, st', w')" and "\<forall>err. s \<noteq> Throw err"
  shows "\<exists>xs. calls w' = calls w @ xs
            \<and> cumulativeUsers st' = cumulativeUsers st + validCount xs"
  using assms(1)
proof (cases rule: pageStep_cases)
  case budget
  then show ?thesis by simp
next
  case (fetchThrows msg wx)
  with assms(2) show ?thesis by simp
next
  case (invalid r wx)
  with assms(2) show ?thesis by simp
next
  case (mergeThrows rp us err g arrs n)
  with assms(2) show ?thesis by simp
next
  case (merged rp us g arrs n)
  have "validCount [(currentAfter st, Returns (Some rp))]
      = int (length (filter (\<lambda>u. trimmedLabel u \<noteq> []) us))"
    using merged(3) by (simp add: validCount_def membersOf_def)
  with merged mergeUsers_count [OF merged(4)] show ?thesis
    by simp
qed

lemma chunkLoop_count:
  assumes "chunkLoop e cs t st w = (s, st', w')" and "\<forall>err. s \<noteq> Throw err"
  shows "\<exists>xs. calls w' = calls w @ xs
            \<and> cumulativeUsers st' = cumulativeUsers st + validCount xs"
proof (rule chunkLoop_rule [OF assms(1)])
  fix st w
  assume "pageStep e cs t st w = (s, st', w')"
  then show "\<exists>xs. calls w' = calls w @ xs
            \<and> cumulativeUsers st' = cumulativeUsers st + validCount xs"
    using assms(2) by (rule pageStep_count)
next
  fix st w st1 w1
  assume "pageStep e cs t st w = (Continue, st1, w1)"
  then obtain ys where ys: "calls w1 = calls w @ ys"
      "cumulativeUsers st1 = cumulativeUsers st + validCount ys"
    using pageStep_count by blast
  assume "\<exists>xs. calls w' = calls w1 @ xs
            \<and> cumulativeUsers st' = cumulativeUsers st1 + validCount xs"
  then obtain xs where "calls w' = calls w1 @ xs"
      "cumulativeUsers st' = cumulativeUsers st1 + validCount xs"
    by blast
  with ys have "calls w' = calls w @ (ys @ xs)
       \<and> cumulativeUsers st' = cumulativeUsers st + validCount (ys @ xs)"
    by simp
  then show "\<exists>xs. calls w' = calls w @ xs
            \<and> cumulativeUsers st' = cumulativeUsers st + validCount xs"
    by blast
qed

lemma chunk_count:
  assumes "buildFlairGroupsPaginatedChunk e a g n p w = (Inr cp, w')"
  shows "\<exists>xs. calls w' = calls w @ xs \<and> scannedUsers cp = n + validCount xs"
  using assms
proof (cases rule: chunk_cases)
  case (returned wa s st1 w1 cp')
  then have "\<forall>err. s \<noteq> Throw err"
    by auto
  from chunkLoop_count [OF returned(2) this] returned show ?thesis
    by auto
qed simp_all

lemma runChunks_count:
  "runChunks e n cp w = (Inr cp', w')
     \<Longrightarrow> \<exists>xs. calls w' = calls w @ xs \<and> scannedUsers cp' = scannedUsers cp + validCount xs"
proof (induction n arbitrary: cp w)
  case 0
  then show ?case by simp
next
  case (Suc n)
  from Suc.prems obtain cp1 w1 where
    one: "continueScan e cp w = (Inr cp1, w1)" and rest: "runChunks e n cp1 w1 = (Inr cp', w')"
    by (auto split: prod.splits sum.splits)
  from one obtain ys where ys: "calls w1 = calls w @ ys"
      "scannedUsers cp1 = scannedUsers cp + validCount ys"
    unfolding continueScan_def using chunk_count by blast
  from Suc.IH [OF rest] obtain xs where "calls w' = calls w1 @ xs"
      "scannedUsers cp' = scannedUsers cp1 + validCount xs"
    by blast
  with ys have "calls w' = calls w @ (ys @ xs)
      \<and> scannedUsers cp' = scannedUsers cp + validCount (ys @ xs)"
    by simp
  then show ?case by blast
qed

text \<open>
  Claim C1, as the code has it. For every sequence of chunk invocations of one generation
  in which every chunk returns a checkpoint, started from the initial checkpoint, the
  \<open>scannedUsers\<close> of the final checkpoint is the number of members, over all pages the
  Page Source returned to these chunks, whose label is non-empty after trimming white
  space, wherever the chunk boundaries fall. The label is trimmed before it is tested,
  so a member whose label is only white space is not counted.
\<close>

theorem C1_scanned_count:
  assumes "runChunks e n (initialPartial t0) w = (Inr cp, w')"
  shows "scannedUsers cp = validCount (callsSince w w')"
proof -
  from runChunks_count [OF assms] obtain xs where
    "calls w' = calls w @ xs" "scannedUsers cp = scannedUsers (initialPartial t0) + validCount xs"
    by blast
  then show ?thesis
    by (simp add: callsSince_def initialPartial_def)
qed

text \<open>The scenario of the specification, run in two chunks: the first fetch takes the
  whole time budget, so the first chunk pauses after page 1. Both groups end with three
  identifiers, six members are counted and the scan is completed.\<close>

theorem C1_scanned_count_witness:
  "fst (runChunks (mkEnv scenarioPages [27000] False None) (Suc (Suc 0)) (initialPartial 0) world0)
     = Inr \<lparr>flairGroups = [(''gold'', 0), (''silver'', 1)], after = None, timestamp = 27500,
             completed = True, scannedUsers = 6, lastPageNumber = Some 3, toastShown = None\<rparr>
   \<and> arrays (snd (runChunks (mkEnv scenarioPages [27000] False None) (Suc (Suc 0)) (initialPartial 0) world0))
     = [[''u1'', ''u2'', ''u4''], [''u3'', ''u5'', ''u6'']]
   \<and> validCount (callsSince world0
         (snd (runChunks (mkEnv scenarioPages [27000] False None) (Suc (Suc 0)) (initialPartial 0) world0)))
     = 6"
proof -
  let ?r = "runChunks (mkEnv scenarioPages [27000] False None) (Suc (Suc 0)) (initialPartial 0) world0"
  let ?cp = "\<lparr>flairGroups = [(''gold'', 0::nat), (''silver'', 1)], after = None, timestamp = 27500,
             completed = True, scannedUsers = 6, lastPageNumber = Some 3, toastShown = None\<rparr>"
  have res: "fst ?r = Inr ?cp"
    by (simp add: run_defs scenarioPages_def)
  have arrs: "arrays (snd ?r) = [[''u1'', ''u2'', ''u4''], [''u3'', ''u5'', ''u6'']]"
    by (simp add: run_defs scenarioPages_def)
  from res have "?r = (Inr ?cp, snd ?r)"
    by (metis prod.collapse)
  from C1_scanned_count [OF this] have "validCount (callsSince world0 (snd ?r)) = 6"
    by simp
  with res arrs show ?thesis
    by simp
qed

text \<open>As stated, with every non-empty label counted, C1 fails: a page with one member
  labelled \<open>gold\<close> and one labelled with a single space has two members with a
  non-empty label, and the checkpoint counts one.\<close>

theorem C1_counterexample:
  "map_sum id scannedUsers
       (fst (runChunks (mkEnv blankPages [] False None) (Suc 0) (initialPartial 0) world0)) = Inr 1
   \<and> int (length (filter hasNonEmptyLabel (membersOf (callsSince world0
       (snd (runChunks (mkEnv blankPages [] False None) (Suc 0) (initialPartial 0) world0)))))) = 2"
  by (simp add: run_defs blankPages_def callsSince_def membersOf_def hasNonEmptyLabel_def)

section \<open>Page numbering\<close>

lemma pageStep_pages:
  assumes "pageStep e cs t st w = (s, st', w')"
  shows "\<exists>xs. calls w' = calls w @ xs
            \<and> pageNumber st' = pageNumber st + int (length xs) + (if s = Break then 1 else 0)"
  using assms by (cases rule: pageStep_cases) auto

lemma chunkLoop_pages:
  assumes "chunkLoop e cs t st w = (s, st', w')"
  shows "\<exists>xs. calls w' = calls w @ xs
            \<and> pageNumber st' = pageNumber st + int (length xs) + (if s = Break then 1 else 0)"
proof (rule chunkLoop_rule [OF assms])
  fix st w
  assume "pageStep e cs t st w = (s, st', w')"
  then show "\<exists>xs. calls w' = calls w @ xs
            \<and> pageNumber st' = pageNumber st + int (length xs) + (if s = Break then 1 else 0)"
    by (rule pageStep_pages)
next
  fix st w st1 w1
  assume "pageStep e cs t st w = (Continue, st1, w1)"
  from pageStep_pages [OF this] obtain ys where ys: "calls w1 = calls w @ ys"
      "pageNumber st1 = pageNumber st + int (length ys)"
    by auto
  assume "\<exists>xs. calls w' = calls w1 @ xs
            \<and> pageNumber st' = pageNumber st1 + int (length xs) + (if s = Break then 1 else 0)"
  then obtain xs where "calls w' = calls w1 @ xs"
      "pageNumber st' = pageNumber st1 + int (length xs) + (if s = Break then 1 else 0)"
    by blast
  with ys have "calls w' = calls w @ (ys @ xs)
       \<and> pageNumber st' = pageNumber st + int (length (ys @ xs)) + (if s = Break then 1 else 0)"
    by simp
  then show "\<exists>xs. calls w' = calls w @ xs
            \<and> pageNumber st' = pageNumber st + int (length xs) + (if s = Break then 1 else 0)"
    by blast
qed

lemma chunk_lastPageNumber:
  assumes "buildFlairGroupsPaginatedChunk e a g n p w = (Inr cp, w')"
  shows "lastPageNumber cp
           = Some (p + int (length (callsSince w w')) + (if completed cp then 0 else 1))"
  using assms
proof (cases rule: chunk_cases)
  case (returned wa s st1 w1 cp')
  from chunkLoop_pages [OF returned(2)] returned show ?thesis
    by (auto simp: callsSince_def)
qed simp_all

lemma chunk_lastPageNumber_grows:
  assumes "buildFlairGroupsPaginatedChunk e a g n p w = (Inr cp, w')"
  shows "\<exists>q. lastPageNumber cp = Some q \<and> p \<le> q"
  using chunk_lastPageNumber [OF assms] by simp

text \<open>
  Claim C2 at a failing input. The page number is incremented at the head of every pass,
  before the time budget is checked (lines 124 to 131), so a chunk that pauses on the
  budget leaves a \<open>lastPageNumber\<close> one above the pages it fetched
  (\<open>chunk_lastPageNumber\<close>); it never decreases (\<open>chunk_lastPageNumber_grows\<close>). With
  the two pages of the scenario fetched in two chunks, the final \<open>lastPageNumber\<close> is 3
  while 2 pages were fetched.
\<close>

theorem C2_page_number_skips:
  "map_sum id lastPageNumber
       (fst (runChunks (mkEnv scenarioPages [27000] False None) (Suc (Suc 0)) (initialPartial 0) world0))
     = Inr (Some 3)
   \<and> length (callsSince world0
       (snd (runChunks (mkEnv scenarioPages [27000] False None) (Suc (Suc 0)) (initialPartial 0) world0)))
     = 2"
  by (simp add: run_defs scenarioPages_def callsSince_def)

section \<open>Failure of a page\<close>

lemma pageStep_failure:
  assumes "pageStep e cs t st w = (s, st', w')"
  shows "kv w' ''flairScanResult'' = kv w ''flairScanResult''
       \<and> kv w' ''flairScanFailed'' = kv w ''flairScanFailed''
       \<and> kv w' ''flairScanFailedMessage'' = kv w ''flairScanFailedMessage''
       \<and> kv w' ''flairScanInProgress'' = kv w ''flairScanInProgress''
       \<and> kvOps w \<le> kvOps w'
       \<and> (\<exists>xs. calls w' = calls w @ xs \<and> (\<forall>c \<in> set xs. \<not> badPage (snd c)))
     \<or> kv w' ''flairScanResult'' = kv w ''flairScanResult''
       \<and> s = Throw (pageError (snd (last (calls w')))) \<and> failureRecorded e w w'"
  using assms
proof (cases rule: pageStep_cases)
  case budget
  then show ?thesis by simp
next
  case (fetchThrows msg wx)
  then show ?thesis
    by (simp add: failureRecorded_def failScan_kv failScan_other)
next
  case (invalid r wx)
  then have "badPage (Returns r)"
    by (cases r) auto
  with invalid show ?thesis
    by (simp add: failureRecorded_def failScan_kv failScan_other)
next
  case (mergeThrows rp us err g arrs n)
  then show ?thesis by simp
next
  case (merged rp us g arrs n)
  then show ?thesis by simp
qed

lemma failureRecorded_earlier:
  assumes "failureRecorded e w1 w'"
    and "kv w1 ''flairScanFailed'' = kv w ''flairScanFailed''"
    and "kv w1 ''flairScanFailedMessage'' = kv w ''flairScanFailedMessage''"
    and "kv w1 ''flairScanInProgress'' = kv w ''flairScanInProgress''"
    and "kvOps w \<le> kvOps w1"
  shows "failureRecorded e w w'"
  using assms by (simp add: failureRecorded_def)

lemma chunkLoop_failure:
  assumes "chunkLoop e cs t st w = (s, st', w')"
  shows "kv w' ''flairScanResult'' = kv w ''flairScanResult''
       \<and> kv w' ''flairScanFailed'' = kv w ''flairScanFailed''
       \<and> kv w' ''flairScanFailedMessage'' = kv w ''flairScanFailedMessage''
       \<and> kv w' ''flairScanInProgress'' = kv w ''flairScanInProgress''
       \<and> kvOps w \<le> kvOps w'
       \<and> (\<exists>xs. calls w' = calls w @ xs \<and> (\<forall>c \<in> set xs. \<not> badPage (snd c)))
     \<or> kv w' ''flairScanResult'' = kv w ''flairScanResult''
       \<and> s = Throw (pageError (snd (last (calls w')))) \<and> failureRecorded e w w'"
proof (rule chunkLoop_rule [OF assms])
  fix st w
  assume "pageStep e cs t st w = (s, st', w')"
  then show "kv w' ''flairScanResult'' = kv w ''flairScanResult''
       \<and> kv w' ''flairScanFailed'' = kv w ''flairScanFailed''
       \<and> kv w' ''flairScanFailedMessage'' = kv w ''flairScanFailedMessage''
       \<and> kv w' ''flairScanInProgress'' = kv w ''flairScanInProgress''
       \<and> kvOps w \<le> kvOps w'
       \<and> (\<exists>xs. calls w' = calls w @ xs \<and> (\<forall>c \<in> set xs. \<not> badPage (snd c)))
     \<or> kv w' ''flairScanResult'' = kv w ''flairScanResult''
       \<and> s = Throw (pageError (snd (last (calls w')))) \<and> failureRecorded e w w'"
    by (rule pageStep_failure)
next
  fix st w st1 w1
  assume "pageStep e cs t st w = (Continue, st1, w1)"
  from pageStep_failure [OF this] obtain ys where one:
    "kv w1 ''flairScanResult'' = kv w ''flairScanResult''"
    "kv w1 ''flairScanFailed'' = kv w ''flairScanFailed''"
    "kv w1 ''flairScanFailedMessage'' = kv w ''flairScanFailedMessage''"
    "kv w1 ''flairScanInProgress'' = kv w ''flairScanInProgress''"
    "kvOps w \<le> kvOps w1"
    "calls w1 = calls w @ ys" "\<forall>c \<in> set ys. \<not> badPage (snd c)"
    by auto
  assume "kv w' ''flairScanResult'' = kv w1 ''flairScanResult''
       \<and> kv w' ''flairScanFailed'' = kv w1 ''flairScanFailed''
       \<and> kv w' ''flairScanFailedMessage'' = kv w1 ''flairScanFailedMessage''
       \<and> kv w' ''flairScanInProgress'' = kv w1 ''flairScanInProgress''
       \<and> kvOps w1 \<le> kvOps w'
       \<and> (\<exists>xs. calls w' = calls w1 @ xs \<and> (\<forall>c \<in> set xs. \<not> badPage (snd c)))
     \<or> kv w' ''flairScanResult'' = kv w1 ''flairScanResult''
       \<and> s = Throw (pageError (snd (last (calls w')))) \<and> failureRecorded e w1 w'"
  then show "kv w' ''flairScanResult'' = kv w ''flairScanResult''
       \<and> kv w' ''flairScanFailed'' = kv w ''flairScanFailed''
       \<and> kv w' ''flairScanFailedMessage'' = kv w ''flairScanFailedMessage''
       \<and> kv w' ''flairScanInProgress'' = kv w ''flairScanInProgress''
       \<and> kvOps w \<le> kvOps w'
       \<and> (\<exists>xs. calls w' = calls w @ xs \<and> (\<forall>c \<in> set xs. \<not> badPage (snd c)))
     \<or> kv w' ''flairScanResult'' = kv w ''flairScanResult''
       \<and> s = Throw (pageError (snd (last (calls w')))) \<and> failureRecorded e w w'"
  proof (elim disjE conjE exE)
    fix xs
    assume "calls w' = calls w1 @ xs" "\<forall>c \<in> set xs. \<not> badPage (snd c)"
    with one have "calls w' = calls w @ (ys @ xs)" "\<forall>c \<in> set (ys @ xs). \<not> badPage (snd c)"
      by auto
    then have "\<exists>zs. calls w' = calls w @ zs \<and> (\<forall>c \<in> set zs. \<not> badPage (snd c))"
      by blast
    moreover assume "kv w' ''flairScanResult'' = kv w1 ''flairScanResult''"
      "kv w' ''flairScanFailed'' = kv w1 ''flairScanFailed''"
      "kv w' ''flairScanFailedMessage'' = kv w1 ''flairScanFailedMessage''"
      "kv w' ''flairScanInProgress'' = kv w1 ''flairScanInProgress''"
      "kvOps w1 \<le> kvOps w'"
    ultimately show ?thesis
      using one by simp
  next
    assume "kv w' ''flairScanResult'' = kv w1 ''flairScanResult''"
      "s = Throw (pageError (snd (last (calls w'))))" "failureRecorded e w1 w'"
    with one failureRecorded_earlier [of e w1 w' w] show ?thesis
      by simp
  qed
qed

text \<open>
  Claim C3, as the code has it. When a chunk invocation makes a call to the Page Source
  that throws or that returns a falsy response or one without a member array, the chunk
  throws that error (the fetch error itself, or the invalid-response error) and
  \<open>flairScanResult\<close> is as it was before the invocation. The last three operations on
  the store are the writes of \<open>flairScanFailed = true\<close>, of
  \<open>flairScanFailedMessage\<close> with the message of the error and of
  \<open>flairScanInProgress = false\<close>, made through \<open>safeKVWrite\<close>: each key holds its new
  value when its write goes through, and the value it had before the invocation when
  its write fails.
\<close>

theorem C3_page_failure:
  assumes "buildFlairGroupsPaginatedChunk e a g n p w = (r, w')"
    and "\<exists>c \<in> set (callsSince w w'). badPage (snd c)"
  shows "r = Inl (pageError (snd (last (calls w'))))
       \<and> kv w' ''flairScanResult'' = kv w ''flairScanResult''
       \<and> kvOps w + 3 \<le> kvOps w'
       \<and> kv w' ''flairScanFailed''
           = (if kvFault e (kvOps w' - 3) then kv w ''flairScanFailed'' else Some (JBool True))
       \<and> kv w' ''flairScanFailedMessage''
           = (if kvFault e (kvOps w' - 2) then kv w ''flairScanFailedMessage''
              else Some (JStr (errorMessage (pageError (snd (last (calls w')))))))
       \<and> kv w' ''flairScanInProgress''
           = (if kvFault e (kvOps w' - 1) then kv w ''flairScanInProgress'' else Some (JBool False))"
  using assms(1)
proof (cases rule: chunk_cases)
  case (platform msg)
  with assms(2) show ?thesis
    by (simp add: callsSince_def)
next
  case (thrown wa err st1)
  from chunkLoop_failure [OF thrown(2)] show ?thesis
  proof (elim disjE conjE exE)
    fix xs
    assume "calls w' = calls wa @ xs" "\<forall>c \<in> set xs. \<not> badPage (snd c)"
    with thrown(1) assms(2) show ?thesis
      by (simp add: callsSince_def)
  next
    assume "Throw err = Throw (pageError (snd (last (calls w'))))" "failureRecorded e wa w'"
      "kv w' ''flairScanResult'' = kv wa ''flairScanResult''"
    with thrown(1,3) show ?thesis
      by (simp add: failureRecorded_def)
  qed
next
  case (readFailed wa s st1 w1)
  from chunkLoop_failure [OF readFailed(2)] readFailed(3) obtain xs where
    "calls w1 = calls wa @ xs" "\<forall>c \<in> set xs. \<not> badPage (snd c)"
    by auto
  with readFailed assms(2) show ?thesis
    by (simp add: callsSince_def)
next
  case (returned wa s st1 w1 cp)
  from chunkLoop_failure [OF returned(2)] returned(3) obtain xs where
    "calls w1 = calls wa @ xs" "\<forall>c \<in> set xs. \<not> badPage (snd c)"
    by auto
  with returned assms(2) show ?thesis
    by (simp add: callsSince_def)
qed

text \<open>The scenario of the specification: the Page Source throws on page 2, with a
  completed result of an earlier generation in the store, on a store that works.\<close>

theorem C3_page_failure_witness:
  "fst (buildFlairGroupsPaginatedChunk (mkEnv failingPages [] False None) None [] 0 0 completedWorld)
     = Inl (PageFetchError ''Error: network'')
   \<and> kv (snd (buildFlairGroupsPaginatedChunk (mkEnv failingPages [] False None) None [] 0 0 completedWorld))
        ''flairScanResult'' = Some (JScan oldResult)
   \<and> kv (snd (buildFlairGroupsPaginatedChunk (mkEnv failingPages [] False None) None [] 0 0 completedWorld))
        ''flairScanFailed'' = Some (JBool True)
   \<and> kv (snd (buildFlairGroupsPaginatedChunk (mkEnv failingPages [] False None) None [] 0 0 completedWorld))
        ''flairScanFailedMessage'' = Some (JStr ''Error: network'')
   \<and> kv (snd (buildFlairGroupsPaginatedChunk (mkEnv failingPages [] False None) None [] 0 0 completedWorld))
        ''flairScanInProgress'' = Some (JBool False)"
proof -
  let ?e = "mkEnv failingPages [] False None"
  let ?r = "buildFlairGroupsPaginatedChunk ?e None [] 0 0 completedWorld"
  have cs: "calls (snd ?r) = [(None, failingPages ! 0), (Some ''c1'', Throws ''Error: network'')]"
    by (simp add: run_defs failingPages_def completedWorld_def)
  have run: "?r = (fst ?r, snd ?r)"
    by simp
  have c0: "calls completedWorld = []"
    and k0: "kv completedWorld ''flairScanResult'' = Some (JScan oldResult)"
    by (simp_all add: completedWorld_def world0_def)
  have bad: "\<exists>c \<in> set (callsSince completedWorld (snd ?r)). badPage (snd c)"
    by (simp add: cs callsSince_def c0)
  have healthy: "\<not> kvFault ?e i" for i
    by (simp add: mkEnv_def)
  from C3_page_failure [OF run bad] show ?thesis
    by (simp add: cs k0 healthy)
qed

text \<open>As stated, with the three values persisted at every failed page, C3 fails: when
  the store is down, page 2 throws, the error is thrown to the caller, and none of the
  three keys is written.\<close>

theorem C3_counterexample:
  "fst (buildFlairGroupsPaginatedChunk (mkEnv failingPages [] True None) None [] 0 0 world0)
     = Inl (PageFetchError ''Error: network'')
   \<and> kv (snd (buildFlairGroupsPaginatedChunk (mkEnv failingPages [] True None) None [] 0 0 world0))
        ''flairScanFailed'' = None
   \<and> kv (snd (buildFlairGroupsPaginatedChunk (mkEnv failingPages [] True None) None [] 0 0 world0))
        ''flairScanFailedMessage'' = None
   \<and> kv (snd (buildFlairGroupsPaginatedChunk (mkEnv failingPages [] True None) None [] 0 0 world0))
        ''flairScanInProgress'' = None"
  by (simp add: run_defs failingPages_def)

section \<open>The caller's aggregate\<close>

text \<open>
  Claim C4 at a failing input. The caller's aggregate has the group \<open>gold\<close> with the
  identifier \<open>a\<close>, and the page fetched has a member \<open>b\<close> labelled \<open>gold\<close>. The
  spread on line 111 copies the keys and shares the arrays, and line 160 pushes onto the
  shared array: read through the caller's own aggregate after the call, the group
  \<open>gold\<close> holds \<open>a\<close> and \<open>b\<close>.
\<close>

theorem C4_caller_aggregate_mutated:
  "lookupGroup [(''gold'', 0)] (arrays aliasWorld) ''gold'' = Some [''a'']
   \<and> lookupGroup [(''gold'', 0)]
        (arrays (snd (buildFlairGroupsPaginatedChunk (mkEnv goldPage [] False None)
                        None [(''gold'', 0)] 1 1 aliasWorld))) ''gold''
       = Some [''a'', ''b'']"
  by (simp add: run_defs goldPage_def aliasWorld_def lookupGroup_def)

section \<open>The timeout\<close>

lemma getAppSettings_absent: "getAppSettings (\<lambda>k. None) = Fin 30"
  by (simp add: getAppSettings_def parseInt_def isWhiteSpace_def isDigit_def digitsValue_def)

lemma getAppSettings_number: "getAppSettings (\<lambda>k. Some (SNum 45)) = Fin 45"
  by (simp add: getAppSettings_def parseInt_def isWhiteSpace_def isDigit_def digitsValue_def
        toString_def showNat.simps)

text \<open>
  Claim C7 at a failing input. With the setting holding the string \<open>abc\<close>,
  \<open>parseInt\<close> gives \<open>NaN\<close>, which is of type \<open>number\<close>, so line 115 keeps it
  instead of the default of 30 seconds. No time is ever remaining then: the chunk pauses
  before its first fetch, with nothing scanned.
\<close>

theorem C7_unparsable_timeout:
  "timeoutSelection (Some (getAppSettings (settings (mkEnv scenarioPages [] False (Some (SStr ''abc'')))))) = NaN
   \<and> \<not> isTimeRemaining 0 0 NaN
   \<and> map_sum id (\<lambda>c. (completed c, scannedUsers c, lastPageNumber c))
        (fst (buildFlairGroupsPaginatedChunk (mkEnv scenarioPages [] False (Some (SStr ''abc'')))
                None [] 0 0 world0)) = Inr (False, 0, Some 1)
   \<and> calls (snd (buildFlairGroupsPaginatedChunk (mkEnv scenarioPages [] False (Some (SStr ''abc'')))
                None [] 0 0 world0)) = []"
  by (simp add: run_defs scenarioPages_def)

section \<open>Clearing a scan\<close>

lemma clearScan_kv:
  assumes "\<forall>i<6. \<not> kvFault e (kvOps w + i)"
  shows "kv (clearScan e w) = (\<lambda>k. if k \<in> set clearedKeys then None else kv w k)"
proof -
  have "\<not> kvFault e (kvOps w)" "\<not> kvFault e (Suc (kvOps w))"
    "\<not> kvFault e (Suc (Suc (kvOps w)))" "\<not> kvFault e (Suc (Suc (Suc (kvOps w))))"
    "\<not> kvFault e (Suc (Suc (Suc (Suc (kvOps w)))))"
    "\<not> kvFault e (Suc (Suc (Suc (Suc (Suc (kvOps w))))))"
    using assms [rule_format, of 0] assms [rule_format, of 1] assms [rule_format, of 2]
      assms [rule_format, of 3] assms [rule_format, of 4] assms [rule_format, of 5]
    by (simp_all add: eval_nat_numeral)
  then show ?thesis
    by (auto simp: clearScan_def Let_def safeKVDelete_kv clearedKeys_def)
qed

lemma clearScan_kvOps: "kvOps (clearScan e w) = kvOps w + 6"
  by (simp add: clearScan_def Let_def)

text \<open>
  Claim C5, as the code has it. When its six deletes go through, \<open>clearScan\<close> removes
  \<open>flairScanPartial\<close>, \<open>flairScanResult\<close>, \<open>flairScanInProgress\<close>,
  \<open>flairScanFailed\<close>, \<open>flairScanFailedMessage\<close> and \<open>flairScanStartedAt\<close>, and leaves
  every other key as it was; the state then classifies as \<open>NoScan\<close> and the menu sees
  no scan. The version guard does the same when its read of \<open>appVersion\<close> succeeds, the
  stored version is not the current one and the six deletes go through; it then writes
  the current version, which is recorded when that write goes through.
\<close>

theorem C5_clearScan:
  "((\<forall>i<6. \<not> kvFault e (kvOps w + i)) \<longrightarrow>
        (\<forall>k \<in> set clearedKeys. kv (clearScan e w) k = None)
      \<and> (\<forall>k. k \<notin> set clearedKeys \<longrightarrow> kv (clearScan e w) k = kv w k)
      \<and> classify (clearScan e w) = NoScan \<and> \<not> anyScanState (clearScan e w))
   \<and> (\<not> kvFault e (kvOps w) \<and> storedVersion w \<noteq> Some currentVersion
        \<and> (\<forall>i<6. \<not> kvFault e (kvOps w + 1 + i)) \<longrightarrow>
        (\<forall>k \<in> set clearedKeys. kv (resetFlairScanIfAppUpdated e currentVersion w) k = None)
      \<and> (\<forall>k. k \<notin> set clearedKeys \<and> k \<noteq> ''appVersion'' \<longrightarrow>
             kv (resetFlairScanIfAppUpdated e currentVersion w) k = kv w k)
      \<and> kv (resetFlairScanIfAppUpdated e currentVersion w) ''appVersion''
          = (if kvFault e (kvOps w + 7) then kv w ''appVersion'' else Some (JStr currentVersion))
      \<and> classify (resetFlairScanIfAppUpdated e currentVersion w) = NoScan
      \<and> \<not> anyScanState (resetFlairScanIfAppUpdated e currentVersion w))"
proof -
  have first: "(\<forall>k \<in> set clearedKeys. kv (clearScan e w) k = None)
      \<and> (\<forall>k. k \<notin> set clearedKeys \<longrightarrow> kv (clearScan e w) k = kv w k)
      \<and> classify (clearScan e w) = NoScan \<and> \<not> anyScanState (clearScan e w)"
    if "\<forall>i<6. \<not> kvFault e (kvOps w + i)"
    by (simp add: clearScan_kv [OF that] classify_def anyScanState_def clearedKeys_def)
  have second: "(\<forall>k \<in> set clearedKeys. kv (resetFlairScanIfAppUpdated e currentVersion w) k = None)
      \<and> (\<forall>k. k \<notin> set clearedKeys \<and> k \<noteq> ''appVersion'' \<longrightarrow>
             kv (resetFlairScanIfAppUpdated e currentVersion w) k = kv w k)
      \<and> kv (resetFlairScanIfAppUpdated e currentVersion w) ''appVersion''
          = (if kvFault e (kvOps w + 7) then kv w ''appVersion'' else Some (JStr currentVersion))
      \<and> classify (resetFlairScanIfAppUpdated e currentVersion w) = NoScan
      \<and> \<not> anyScanState (resetFlairScanIfAppUpdated e currentVersion w)"
    if read: "\<not> kvFault e (kvOps w)" and differs: "storedVersion w \<noteq> Some currentVersion"
      and deletes: "\<forall>i<6. \<not> kvFault e (kvOps w + 1 + i)"
  proof -
    let ?w1 = "w\<lparr>kvOps := Suc (kvOps w)\<rparr>"
    from deletes have "\<forall>i<6. \<not> kvFault e (kvOps ?w1 + i)"
      by simp
    from clearScan_kv [OF this] have
      cleared: "kv (clearScan e ?w1) = (\<lambda>k. if k \<in> set clearedKeys then None else kv w k)"
      by (simp cong: if_cong)
    have ops: "kvOps (clearScan e ?w1) = kvOps w + 7"
      by (simp add: clearScan_kvOps)
    from read differs have
      "resetFlairScanIfAppUpdated e currentVersion w
         = safeKVWrite e ''appVersion'' (JStr currentVersion) (clearScan e ?w1)"
      by (simp add: resetFlairScanIfAppUpdated_def kvGet_def storedVersion_def Let_def)
    then have "kv (resetFlairScanIfAppUpdated e currentVersion w)
        = (if kvFault e (kvOps w + 7) then (\<lambda>k. if k \<in> set clearedKeys then None else kv w k)
           else (\<lambda>k. if k \<in> set clearedKeys then None else kv w k)
                  (''appVersion'' \<mapsto> JStr currentVersion))"
      by (simp add: safeKVWrite_kv cleared ops)
    then show ?thesis
      by (simp add: classify_def anyScanState_def clearedKeys_def)
  qed
  from first second show ?thesis
    by blast
qed

text \<open>The scenario of the specification: the guard fires on a store that holds a completed
  scan and that works.\<close>

theorem C5_clearScan_witness:
  "kv (resetFlairScanIfAppUpdated (mkEnv [] [] False None) ''2.0'' completedWorld) ''flairScanResult'' = None
   \<and> kv (resetFlairScanIfAppUpdated (mkEnv [] [] False None) ''2.0'' completedWorld) ''appVersion''
       = Some (JStr ''2.0'')
   \<and> classify completedWorld = Completed
   \<and> classify (resetFlairScanIfAppUpdated (mkEnv [] [] False None) ''2.0'' completedWorld) = NoScan
   \<and> kv (clearScan (mkEnv [] [] False None) completedWorld) ''flairScanResult'' = None
   \<and> classify (clearScan (mkEnv [] [] False None) completedWorld) = NoScan"
proof -
  have healthy: "\<not> kvFault (mkEnv [] [] False None) i" for i
    by (simp add: mkEnv_def)
  have differs: "storedVersion completedWorld \<noteq> Some ''2.0''"
    by (simp add: storedVersion_def completedWorld_def world0_def)
  have before: "classify completedWorld = Completed"
    by (simp add: classify_def completedWorld_def world0_def)
  from C5_clearScan [of "mkEnv [] [] False None" completedWorld "''2.0''"] differs before
  show ?thesis
    by (simp add: clearedKeys_def healthy)
qed

text \<open>As stated, C5 fails in two ways. With \<open>flairScanCompletedAt\<close> and
  \<open>flairScanHeartbeat\<close> among the deleted keys: both survive the cancel action and the
  version guard on a store that works. For every store: when the store is down, or when
  only the guard's read of \<open>appVersion\<close> fails, the completed result stays and the state
  still classifies as \<open>Completed\<close>.\<close>

theorem C5_counterexample:
  "kv (clearScan (mkEnv [] [] False None) completedWorld) ''flairScanCompletedAt'' = Some (JNum 7)
   \<and> kv (clearScan (mkEnv [] [] False None) completedWorld) ''flairScanHeartbeat'' = Some (JNum 5)
   \<and> kv (resetFlairScanIfAppUpdated (mkEnv [] [] False None) ''2.0'' completedWorld) ''flairScanCompletedAt''
       = Some (JNum 7)
   \<and> kv (resetFlairScanIfAppUpdated (mkEnv [] [] False None) ''2.0'' completedWorld) ''flairScanHeartbeat''
       = Some (JNum 5)
   \<and> kv (clearScan (mkEnv [] [] True None) completedWorld) ''flairScanResult'' = Some (JScan oldResult)
   \<and> classify (clearScan (mkEnv [] [] True None) completedWorld) = Completed
   \<and> kv (resetFlairScanIfAppUpdated ((mkEnv [] [] False None)\<lparr>kvFault := (\<lambda>i. i = 0)\<rparr>) ''2.0''
           completedWorld) ''flairScanResult'' = Some (JScan oldResult)
   \<and> classify (resetFlairScanIfAppUpdated ((mkEnv [] [] False None)\<lparr>kvFault := (\<lambda>i. i = 0)\<rparr>) ''2.0''
           completedWorld) = Completed"
  by (simp add: clearScan_def resetFlairScanIfAppUpdated_def safeKVDelete_def kvDelete_def
        safeKVWrite_def kvPut_def kvGet_def mkEnv_def completedWorld_def world0_def Let_def
        classify_def)

section \<open>The terminal state\<close>

lemma failScan_no_checkpoint:
  "kv (failScan e msg w) k = Some (JScan c) \<Longrightarrow> kv w k = Some (JScan c)"
  by (auto simp: failScan_def Let_def safeKVWrite_kv split: if_splits)

lemma pageStep_terminal:
  assumes "pageStep e cs t st w = (s, st', w')"
  shows "(s = Done \<longrightarrow> \<not> truthyStr (currentAfter st'))
       \<and> (\<forall>k c. kv w' k = Some (JScan c) \<longrightarrow> kv w k = Some (JScan c))"
  using assms
  by (cases rule: pageStep_cases) (auto dest: failScan_no_checkpoint split: if_splits)

lemma chunkLoop_terminal:
  assumes "chunkLoop e cs t st w = (s, st', w')"
  shows "(s = Done \<longrightarrow> \<not> truthyStr (currentAfter st'))
       \<and> (\<forall>k c. kv w' k = Some (JScan c) \<longrightarrow> kv w k = Some (JScan c))"
proof (rule chunkLoop_rule [OF assms])
  fix st w
  assume "pageStep e cs t st w = (s, st', w')"
  then show "(s = Done \<longrightarrow> \<not> truthyStr (currentAfter st'))
       \<and> (\<forall>k c. kv w' k = Some (JScan c) \<longrightarrow> kv w k = Some (JScan c))"
    by (rule pageStep_terminal)
next
  fix st w st1 w1
  assume "pageStep e cs t st w = (Continue, st1, w1)"
  from pageStep_terminal [OF this]
  have "\<forall>k c. kv w1 k = Some (JScan c) \<longrightarrow> kv w k = Some (JScan c)"
    by simp
  moreover assume "(s = Done \<longrightarrow> \<not> truthyStr (currentAfter st'))
       \<and> (\<forall>k c. kv w' k = Some (JScan c) \<longrightarrow> kv w1 k = Some (JScan c))"
  ultimately show "(s = Done \<longrightarrow> \<not> truthyStr (currentAfter st'))
       \<and> (\<forall>k c. kv w' k = Some (JScan c) \<longrightarrow> kv w k = Some (JScan c))"
    by blast
qed

lemma persist_checkpoint:
  "kv (persist e r w) k = Some (JScan c) \<Longrightarrow> kv w k = Some (JScan c) \<or> c = toJSON (arrays w) r"
  by (auto simp: persist_def Let_def safeKVWrite_kv safeKVDelete_kv split: if_splits)

lemma terminalOK_toJSON [simp]: "terminalOK (toJSON arrs r) = terminalOK r"
  by (simp add: terminalOK_def toJSON_def)

text \<open>
  Claim C8, as the code has it. Every checkpoint a chunk returns has a cursor that is
  \<open>null\<close> or the empty string when it is completed; equivalently a non-empty cursor
  implies that it is not completed. Every checkpoint found in the store after the
  invocation was there before it or satisfies the same. The loop tests the cursor for
  truthiness (line 185), so the empty string ends the scan as \<open>null\<close> does.
\<close>

theorem C8_terminal_state:
  assumes "buildFlairGroupsPaginatedChunk e a g n p w = (r, w')"
  shows "(\<forall>cp. r = Inr cp \<longrightarrow>
            (completed cp \<longrightarrow> after cp = None \<or> after cp = Some [])
          \<and> (after cp \<noteq> None \<and> after cp \<noteq> Some [] \<longrightarrow> \<not> completed cp))
       \<and> (\<forall>k c. kv w' k = Some (JScan c) \<longrightarrow> kv w k = Some (JScan c) \<or> terminalOK c)"
  using assms
proof (cases rule: chunk_cases)
  case (platform msg)
  then show ?thesis by simp
next
  case (thrown wa err st1)
  from chunkLoop_terminal [OF thrown(2)] thrown(1,3) show ?thesis
    by simp
next
  case (readFailed wa s st1 w1)
  from chunkLoop_terminal [OF readFailed(2)] readFailed(1,5,6) show ?thesis
    by simp
next
  case (returned wa s st1 w1 cp)
  from chunkLoop_terminal [OF returned(2)] have
    fin: "s = Done \<Longrightarrow> \<not> truthyStr (currentAfter st1)"
    and old: "\<And>k c. kv w1 k = Some (JScan c) \<Longrightarrow> kv w k = Some (JScan c)"
    using returned(1) by simp_all
  from fin returned have ok: "terminalOK cp"
    by (auto simp: terminalOK_def truthyStr_def)
  have "kv w k = Some (JScan c) \<or> terminalOK c" if "kv w' k = Some (JScan c)" for k c
    using persist_checkpoint [of e cp "w1\<lparr>kvOps := Suc (kvOps w1)\<rparr>" k c] that returned(11) ok old
    by auto
  with returned(5) ok show ?thesis
    by (auto simp: terminalOK_def)
qed

text \<open>The scenario's two pages, fetched in one chunk.\<close>

theorem C8_terminal_state_witness:
  "fst (buildFlairGroupsPaginatedChunk (mkEnv scenarioPages [] False None) None [] 0 0 world0)
     = Inr \<lparr>flairGroups = [(''gold'', 0), (''silver'', 1)], after = None, timestamp = 500,
             completed = True, scannedUsers = 6, lastPageNumber = Some 2, toastShown = None\<rparr>
   \<and> kv (snd (buildFlairGroupsPaginatedChunk (mkEnv scenarioPages [] False None) None [] 0 0 world0))
        ''flairScanResult''
     = Some (JScan \<lparr>flairGroups = [(''gold'', [''u1'', ''u2'', ''u4'']), (''silver'', [''u3'', ''u5'', ''u6''])],
             after = None, timestamp = 500, completed = True, scannedUsers = 6,
             lastPageNumber = Some 2, toastShown = None\<rparr>)
   \<and> terminalOK \<lparr>flairGroups = [(''gold'', [''u1'', ''u2'', ''u4'']), (''silver'', [''u3'', ''u5'', ''u6''])],
             after = None, timestamp = 500, completed = True, scannedUsers = 6,
             lastPageNumber = Some 2, toastShown = None\<rparr>"
proof -
  let ?r = "buildFlairGroupsPaginatedChunk (mkEnv scenarioPages [] False None) None [] 0 0 world0"
  let ?cp = "\<lparr>flairGroups = [(''gold'', 0::nat), (''silver'', 1)], after = None, timestamp = 500,
             completed = True, scannedUsers = 6, lastPageNumber = Some 2, toastShown = None\<rparr>"
  let ?j = "\<lparr>flairGroups = [(''gold'', [''u1'', ''u2'', ''u4'']), (''silver'', [''u3'', ''u5'', ''u6''])],
             after = None, timestamp = 500, completed = True, scannedUsers = 6,
             lastPageNumber = Some 2, toastShown = None\<rparr>"
  have res: "fst ?r = Inr ?cp"
    by (simp add: run_defs scenarioPages_def)
  have stored: "kv (snd ?r) ''flairScanResult'' = Some (JScan ?j)"
    by (simp add: run_defs scenarioPages_def)
  have before: "kv world0 ''flairScanResult'' = None"
    by (simp add: world0_def)
  have "?r = (fst ?r, snd ?r)"
    by simp
  from C8_terminal_state [OF this] have
    "kv (snd ?r) ''flairScanResult'' = Some (JScan ?j)
       \<longrightarrow> kv world0 ''flairScanResult'' = Some (JScan ?j) \<or> terminalOK ?j"
    by blast
  with stored before have "terminalOK ?j"
    by simp
  with res stored show ?thesis
    by simp
qed

text \<open>As stated, with the cursor \<open>null\<close> whenever the checkpoint is completed, C8
  fails: a page whose next cursor is the empty string gives a completed checkpoint
  whose cursor is the empty string.\<close>

theorem C8_counterexample:
  "map_sum id (\<lambda>c. (completed c, after c))
     (fst (buildFlairGroupsPaginatedChunk (mkEnv emptyCursorPage [] False None) None [] 0 0 world0))
   = Inr (True, Some [])"
  by (simp add: run_defs emptyCursorPage_def)

section \<open>Merging a member\<close>

lemma totalIds_push:
  assumes "distinct (map snd g)" and "(f, a) \<in> set g" and "a < length arrs"
  shows "sum_list (map (\<lambda>p. length (arrs[a := arrs ! a @ [x]] ! snd p)) g)
           = Suc (sum_list (map (\<lambda>p. length (arrs ! snd p)) g))"
  using assms
proof (induction g)
  case Nil
  then show ?case by simp
next
  case (Cons q g)
  show ?case
  proof (cases "snd q = a")
    case True
    with Cons.prems have "\<forall>p \<in> set g. snd p \<noteq> a"
      by (auto simp: image_iff)
    then have "sum_list (map (\<lambda>p. length (arrs[a := arrs ! a @ [x]] ! snd p)) g)
                 = sum_list (map (\<lambda>p. length (arrs ! snd p)) g)"
      by (intro arg_cong [where f = sum_list] map_cong) auto
    with True Cons.prems(3) show ?thesis by simp
  next
    case False
    with Cons.prems have "(f, a) \<in> set g" "distinct (map snd g)"
      by auto
    with Cons.IH Cons.prems(3) False show ?thesis by simp
  qed
qed

lemma totalIds_fresh:
  assumes "list_all (\<lambda>p. snd p < length arrs) g"
  shows "map (\<lambda>p. length ((arrs @ [xs]) ! snd p)) g = map (\<lambda>p. length (arrs ! snd p)) g"
  using assms by (induction g) (auto simp: nth_append)

lemma mergeUser_wf:
  assumes wf: "groupsWf g arrs" and m: "mergeUser u (g, arrs, n) = Inr (g', arrs', n')"
  shows "groupsWf g' arrs' \<and> totalIds g' arrs' - n' = totalIds g arrs - n"
proof (cases "trimmedLabel u = []")
  case True
  with m wf show ?thesis
    by (auto simp: mergeUser_def trimmedLabel_def Let_def)
next
  case False
  let ?f = "trimmedLabel u"
  let ?x = "case user u of None \<Rightarrow> ''Unknown'' | Some n \<Rightarrow> n"
  show ?thesis
  proof (cases "map_of g ?f")
    case None
    with False m have r: "g' = g @ [(?f, length arrs)]" "arrs' = arrs @ [[?x]]" "n' = n + 1"
      by (auto simp: mergeUser_def trimmedLabel_def Let_def split: if_splits)
    from None have "?f \<notin> fst ` set g"
      by (simp add: map_of_eq_None_iff)
    moreover from wf have "length arrs \<notin> snd ` set g"
      by (auto simp: groupsWf_def list_all_iff)
    moreover from wf have "list_all (\<lambda>p. snd p < length (arrs @ [[?x]])) g"
      by (auto simp: groupsWf_def list_all_iff)
    ultimately have "groupsWf g' arrs'"
      using wf r by (simp add: groupsWf_def)
    moreover from wf have "totalIds g' arrs' = totalIds g arrs + 1"
      by (simp add: r totalIds_def groupsWf_def totalIds_fresh)
    ultimately show ?thesis using r by simp
  next
    case (Some a)
    with False m have r: "g' = g" "arrs' = arrs[a := arrs ! a @ [?x]]" "n' = n + 1"
      by (auto simp: mergeUser_def trimmedLabel_def Let_def)
    from Some have mem: "(?f, a) \<in> set g"
      by (rule map_of_SomeD)
    with wf have a: "a < length arrs"
      by (auto simp: groupsWf_def list_all_iff)
    from wf have "groupsWf g' arrs'"
      by (simp add: r groupsWf_def)
    moreover from wf mem a have "totalIds g' arrs' = totalIds g arrs + 1"
      by (simp add: r totalIds_def groupsWf_def totalIds_push)
    ultimately show ?thesis using r by simp
  qed
qed

lemma mergeUsers_wf:
  "groupsWf g arrs \<Longrightarrow> mergeUsers us (g, arrs, n) = (r, g', arrs', n')
     \<Longrightarrow> groupsWf g' arrs' \<and> totalIds g' arrs' - n' = totalIds g arrs - n"
proof (induction us arbitrary: g arrs n)
  case Nil
  then show ?case by simp
next
  case (Cons u us)
  show ?case
  proof (cases "mergeUser u (g, arrs, n)")
    case (Inl err)
    with Cons.prems show ?thesis by simp
  next
    case (Inr s1)
    obtain g1 arrs1 n1 where s1: "s1 = (g1, arrs1, n1)"
      by (cases s1) auto
    from mergeUser_wf [OF Cons.prems(1) Inr [unfolded s1]] have
      one: "groupsWf g1 arrs1" "totalIds g1 arrs1 - n1 = totalIds g arrs - n"
      by simp_all
    from Cons.prems(2) Inr s1 have "mergeUsers us (g1, arrs1, n1) = (r, g', arrs', n')"
      by simp
    from Cons.IH [OF one(1) this] one(2) show ?thesis
      by simp
  qed
qed

text \<open>A member labelled \<open>constructor\<close>, met by an aggregate without that key: line 159
  finds the inherited function, makes no array, and the \<open>push\<close> of line 160 throws.\<close>

lemma mergeUser_inherited:
  "mergeUser (mkMember ''u7'' ''constructor'') ([], [], 0)
     = Inl (TypeError ''cumulativeFlairGroups[ftext].push is not a function'')"
  by (simp add: mergeUser_def mkMember_def trim_def isWhiteSpace_def inheritedNames_def)




section \<open>Consistency of count and aggregate\<close>

lemma pageStep_wf:
  assumes "pageStep e cs t st w = (s, st', w')"
    and "groupsWf (cumulativeFlairGroups st) (arrays w)"
  shows "groupsWf (cumulativeFlairGroups st') (arrays w')
       \<and> totalIds (cumulativeFlairGroups st') (arrays w') - cumulativeUsers st'
           = totalIds (cumulativeFlairGroups st) (arrays w) - cumulativeUsers st"
  using assms(1)
proof (cases rule: pageStep_cases)
  case budget
  with assms(2) show ?thesis by simp
next
  case (fetchThrows msg wx)
  with assms(2) show ?thesis by simp
next
  case (invalid r wx)
  with assms(2) show ?thesis by simp
next
  case (mergeThrows rp us err g arrs n)
  with mergeUsers_wf [OF assms(2) mergeThrows(4)] show ?thesis by simp
next
  case (merged rp us g arrs n)
  with mergeUsers_wf [OF assms(2) merged(4)] show ?thesis by simp
qed

lemma chunkLoop_wf:
  assumes "chunkLoop e cs t st w = (s, st', w')"
  shows "groupsWf (cumulativeFlairGroups st) (arrays w) \<longrightarrow>
         groupsWf (cumulativeFlairGroups st') (arrays w')
       \<and> totalIds (cumulativeFlairGroups st') (arrays w') - cumulativeUsers st'
           = totalIds (cumulativeFlairGroups st) (arrays w) - cumulativeUsers st"
proof (rule chunkLoop_rule [OF assms])
  fix st w
  assume "pageStep e cs t st w = (s, st', w')"
  then show "groupsWf (cumulativeFlairGroups st) (arrays w) \<longrightarrow>
         groupsWf (cumulativeFlairGroups st') (arrays w')
       \<and> totalIds (cumulativeFlairGroups st') (arrays w') - cumulativeUsers st'
           = totalIds (cumulativeFlairGroups st) (arrays w) - cumulativeUsers st"
    using pageStep_wf by blast
next
  fix st w st1 w1
  assume "pageStep e cs t st w = (Continue, st1, w1)"
  note one = pageStep_wf [OF this]
  assume "groupsWf (cumulativeFlairGroups st1) (arrays w1) \<longrightarrow>
         groupsWf (cumulativeFlairGroups st') (arrays w')
       \<and> totalIds (cumulativeFlairGroups st') (arrays w') - cumulativeUsers st'
           = totalIds (cumulativeFlairGroups st1) (arrays w1) - cumulativeUsers st1"
  with one show "groupsWf (cumulativeFlairGroups st) (arrays w) \<longrightarrow>
         groupsWf (cumulativeFlairGroups st') (arrays w')
       \<and> totalIds (cumulativeFlairGroups st') (arrays w') - cumulativeUsers st'
           = totalIds (cumulativeFlairGroups st) (arrays w) - cumulativeUsers st"
    by simp
qed

text \<open>
  Claim C10. When the aggregate passed in is well formed (distinct labels, each with an
  allocated array of its own) and \<open>scannedUsersStart\<close> is the number of identifiers it
  holds, the checkpoint a chunk returns has as \<open>scannedUsers\<close> the number of
  identifiers its \<open>flairGroups\<close> hold, and its aggregate is well formed again.
\<close>

theorem C10_count_matches_aggregate:
  assumes "groupsWf cumulativeFlairGroupsStart (arrays w)"
    and "scannedUsersStart = totalIds cumulativeFlairGroupsStart (arrays w)"
    and "buildFlairGroupsPaginatedChunk e a cumulativeFlairGroupsStart scannedUsersStart p w = (Inr cp, w')"
  shows "scannedUsers cp = totalIds (flairGroups cp) (arrays w')
       \<and> groupsWf (flairGroups cp) (arrays w')"
  using assms(3)
proof (cases rule: chunk_cases)
  case (returned wa s st1 w1 cp')
  from chunkLoop_wf [OF returned(2)] assms(1,2) returned(1) have
    "groupsWf (cumulativeFlairGroups st1) (arrays w1)"
    "totalIds (cumulativeFlairGroups st1) (arrays w1) = cumulativeUsers st1"
    by simp_all
  with returned show ?thesis
    by simp
qed simp_all

text \<open>A caller that resumes with one identifier in the group \<open>gold\<close>.\<close>

theorem C10_count_matches_aggregate_witness:
  "fst (buildFlairGroupsPaginatedChunk (mkEnv goldPage [] False None) None [(''gold'', 0)] 1 1 aliasWorld)
     = Inr \<lparr>flairGroups = [(''gold'', 0)], after = None, timestamp = 250, completed = True,
             scannedUsers = 2, lastPageNumber = Some 2, toastShown = None\<rparr>
   \<and> totalIds [(''gold'', 0)]
        (arrays (snd (buildFlairGroupsPaginatedChunk (mkEnv goldPage [] False None)
                        None [(''gold'', 0)] 1 1 aliasWorld))) = 2"
proof -
  let ?r = "buildFlairGroupsPaginatedChunk (mkEnv goldPage [] False None) None [(''gold'', 0)] 1 1 aliasWorld"
  let ?cp = "\<lparr>flairGroups = [(''gold'', 0::nat)], after = None, timestamp = 250, completed = True,
             scannedUsers = 2, lastPageNumber = Some 2, toastShown = None\<rparr>"
  have res: "fst ?r = Inr ?cp"
    by (simp add: run_defs goldPage_def aliasWorld_def)
  then have run: "?r = (Inr ?cp, snd ?r)"
    by (metis prod.collapse)
  have wf: "groupsWf [(''gold'', 0)] (arrays aliasWorld)"
    by (simp add: groupsWf_def aliasWorld_def world0_def)
  have start: "1 = totalIds [(''gold'', 0)] (arrays aliasWorld)"
    by (simp add: totalIds_def aliasWorld_def world0_def)
  from C10_count_matches_aggregate [OF wf start run] res show ?thesis
    by simp
qed

section \<open>Failures of the store\<close>

lemma pageStep_same:
  assumes same: "sameButStore w1 w2"
    and step: "pageStep e cs t st w1 = (s, st', w1')"
  shows "\<exists>w2'. pageStep (healthyStore e) cs t st w2 = (s, st', w2') \<and> sameButStore w1' w2'"
proof -
  from same have eq: "now w2 = now w1" "calls w2 = calls w1" "arrays w2 = arrays w1"
    by (simp_all add: sameButStore_def)
  have env: "source (healthyStore e) = source e" "latency (healthyStore e) = latency e"
    by (simp_all add: healthyStore_def)
  show ?thesis
  proof (cases "isTimeRemaining (now w1) cs t")
    case False
    with step same eq show ?thesis
      by (auto simp: pageStep_def Let_def sameButStore_def)
  next
    case True
    show ?thesis
    proof (cases "source e (length (calls w1)) (currentAfter st)")
      case (Throws msg)
      with step True same eq env show ?thesis
        by (auto simp: pageStep_def Let_def sameButStore_def failScan_other)
    next
      case (Returns r)
      show ?thesis
      proof (cases "case r of None \<Rightarrow> None | Some rp \<Rightarrow> users rp")
        case None
        with step True Returns same eq env show ?thesis
          by (auto simp: pageStep_def Let_def sameButStore_def failScan_other)
      next
        case (Some us)
        obtain err g arrs n where
          f: "mergeUsers us (cumulativeFlairGroups st, arrays w1, cumulativeUsers st) = (err, g, arrs, n)"
          by (cases "mergeUsers us (cumulativeFlairGroups st, arrays w1, cumulativeUsers st)") auto
        with step True Returns Some same eq env show ?thesis
          by (cases err)
             (auto simp: pageStep_def Let_def sameButStore_def safeKVWrite_other split: if_splits)
      qed
    qed
  qed
qed

lemma chunkLoop_same:
  assumes "chunkLoop e cs t st w1 = (s, st', w1')"
  shows "\<forall>w2. sameButStore w1 w2 \<longrightarrow>
           (\<exists>w2'. chunkLoop (healthyStore e) cs t st w2 = (s, st', w2') \<and> sameButStore w1' w2')"
proof (rule chunkLoop_rule [OF assms])
  fix st w1
  assume step: "pageStep e cs t st w1 = (s, st', w1')" and last: "s \<noteq> Continue"
  show "\<forall>w2. sameButStore w1 w2 \<longrightarrow>
           (\<exists>w2'. chunkLoop (healthyStore e) cs t st w2 = (s, st', w2') \<and> sameButStore w1' w2')"
  proof (intro allI impI)
    fix w2
    assume "sameButStore w1 w2"
    from pageStep_same [OF this step] obtain w2' where
      "pageStep (healthyStore e) cs t st w2 = (s, st', w2')" "sameButStore w1' w2'"
      by blast
    with last show "\<exists>w2'. chunkLoop (healthyStore e) cs t st w2 = (s, st', w2') \<and> sameButStore w1' w2'"
      by (simp add: chunkLoop.simps [of "healthyStore e" cs t st w2])
  qed
next
  fix st w1 st1 w11
  assume step: "pageStep e cs t st w1 = (Continue, st1, w11)"
    and rest: "\<forall>w2. sameButStore w11 w2 \<longrightarrow>
           (\<exists>w2'. chunkLoop (healthyStore e) cs t st1 w2 = (s, st', w2') \<and> sameButStore w1' w2')"
  show "\<forall>w2. sameButStore w1 w2 \<longrightarrow>
           (\<exists>w2'. chunkLoop (healthyStore e) cs t st w2 = (s, st', w2') \<and> sameButStore w1' w2')"
  proof (intro allI impI)
    fix w2
    assume "sameButStore w1 w2"
    from pageStep_same [OF this step] obtain w21 where
      one: "pageStep (healthyStore e) cs t st w2 = (Continue, st1, w21)" "sameButStore w11 w21"
      by blast
    with rest obtain w2' where
      "chunkLoop (healthyStore e) cs t st1 w21 = (s, st', w2')" "sameButStore w1' w2'"
      by blast
    with one show "\<exists>w2'. chunkLoop (healthyStore e) cs t st w2 = (s, st', w2') \<and> sameButStore w1' w2'"
      by (simp add: chunkLoop.simps [of "healthyStore e" cs t st w2])
  qed
qed

lemma chunk_unfold:
  assumes "platformFault e (platformOps w0) = None" and "platformFault e (Suc (platformOps w0)) = None"
  shows "buildFlairGroupsPaginatedChunk e a g n p w0
     = (case chunkLoop e (now w0) (timeoutSelection (Some (getAppSettings (settings e))))
               \<lparr>currentAfter = a, pageNumber = p, cumulativeFlairGroups = g, cumulativeUsers = n\<rparr>
               (w0\<lparr>platformOps := Suc (Suc (platformOps w0))\<rparr>) of
          (s, st, w1) \<Rightarrow>
            (case s of
               Throw err \<Rightarrow> (Inl err, w1)
             | _ \<Rightarrow>
                 (case kvGet e ''flairScanStartedAt'' w1 of
                    (Inl err, w2) \<Rightarrow> (Inl err, w2)
                  | (Inr startTimestampRaw, w2) \<Rightarrow>
                      let result =
                            \<lparr>flairGroups = cumulativeFlairGroups st, after = currentAfter st,
                             timestamp = (case startTimestampRaw of Some (JNum t) \<Rightarrow> t | _ \<Rightarrow> now w2),
                             completed = (s = Done), scannedUsers = cumulativeUsers st,
                             lastPageNumber = Some (pageNumber st), toastShown = None\<rparr>
                      in (Inr result, persist e result w2))))"
  using assms by (simp add: buildFlairGroupsPaginatedChunk_def platformCall_def)

text \<open>Failing writes and deletes are contained: what a chunk returns or throws is what it
  returns or throws on a store that never fails, unless the read of
  \<open>flairScanStartedAt\<close> fails.\<close>

lemma chunk_store_failures:
  "fst (buildFlairGroupsPaginatedChunk e a g n p w)
      = fst (buildFlairGroupsPaginatedChunk (healthyStore e) a g n p w)
   \<or> fst (buildFlairGroupsPaginatedChunk e a g n p w) = Inl (KVError Get ''flairScanStartedAt'')"
proof (cases "platformFault e (platformOps w) = None \<and> platformFault e (Suc (platformOps w)) = None")
  case False
  then show ?thesis
    by (auto simp: buildFlairGroupsPaginatedChunk_def platformCall_def healthyStore_def
             split: option.splits)
next
  case True
  let ?t = "timeoutSelection (Some (getAppSettings (settings e)))"
  let ?st = "\<lparr>currentAfter = a, pageNumber = p, cumulativeFlairGroups = g, cumulativeUsers = n\<rparr>"
  let ?h = "healthyStore e"
  let ?w = "w\<lparr>platformOps := Suc (Suc (platformOps w))\<rparr>"
  have set: "settings ?h = settings e" and ok: "\<not> kvFault ?h i"
    and pf: "platformFault ?h = platformFault e" for i
    by (simp_all add: healthyStore_def)
  obtain s st1 w1 where loop: "chunkLoop e (now w) ?t ?st ?w = (s, st1, w1)"
    by (cases "chunkLoop e (now w) ?t ?st ?w") auto
  have "sameButStore ?w ?w"
    by (simp add: sameButStore_def)
  with chunkLoop_same [OF loop] obtain w1h where
    looph: "chunkLoop ?h (now w) ?t ?st ?w = (s, st1, w1h)" and same: "sameButStore w1 w1h"
    by blast
  from True have u: "buildFlairGroupsPaginatedChunk e a g n p w
      = (case chunkLoop e (now w) ?t ?st ?w of
          (s, st, w1) \<Rightarrow>
            (case s of
               Throw err \<Rightarrow> (Inl err, w1)
             | _ \<Rightarrow>
                 (case kvGet e ''flairScanStartedAt'' w1 of
                    (Inl err, w2) \<Rightarrow> (Inl err, w2)
                  | (Inr startTimestampRaw, w2) \<Rightarrow>
                      let result =
                            \<lparr>flairGroups = cumulativeFlairGroups st, after = currentAfter st,
                             timestamp = (case startTimestampRaw of Some (JNum t) \<Rightarrow> t | _ \<Rightarrow> now w2),
                             completed = (s = Done), scannedUsers = cumulativeUsers st,
                             lastPageNumber = Some (pageNumber st), toastShown = None\<rparr>
                      in (Inr result, persist e result w2))))"
    by (simp add: chunk_unfold)
  from True have uh: "buildFlairGroupsPaginatedChunk ?h a g n p w
      = (case chunkLoop ?h (now w) ?t ?st ?w of
          (s, st, w1) \<Rightarrow>
            (case s of
               Throw err \<Rightarrow> (Inl err, w1)
             | _ \<Rightarrow>
                 (case kvGet ?h ''flairScanStartedAt'' w1 of
                    (Inl err, w2) \<Rightarrow> (Inl err, w2)
                  | (Inr startTimestampRaw, w2) \<Rightarrow>
                      let result =
                            \<lparr>flairGroups = cumulativeFlairGroups st, after = currentAfter st,
                             timestamp = (case startTimestampRaw of Some (JNum t) \<Rightarrow> t | _ \<Rightarrow> now w2),
                             completed = (s = Done), scannedUsers = cumulativeUsers st,
                             lastPageNumber = Some (pageNumber st), toastShown = None\<rparr>
                      in (Inr result, persist ?h result w2))))"
    using chunk_unfold [of ?h w a g n p] by (simp add: pf set)
  show ?thesis
  proof (cases "\<exists>x. s = Throw x")
    case True
    with loop looph u uh show ?thesis
      by auto
  next
    case False
    with loop looph same ok u uh show ?thesis
      by (cases s; cases "kvFault e (kvOps w1)")
         (auto simp: Let_def kvGet_def sameButStore_def split: option.splits jval.splits)
  qed
qed

text \<open>
  Claim C6 at a failing input. The store fails for one operation only, the read of
  \<open>flairScanStartedAt\<close> on line 192, which is a bare \<open>kvStore.get\<close>: both pages of the
  scenario are fetched and merged, the failure of the read is thrown out of the chunk,
  and neither a result nor a partial checkpoint is written. The same fault at a write or a
  delete is swallowed (\<open>chunk_store_failures\<close>), and the version guard catches the
  failure of its own read.
\<close>

theorem C6_read_failure_thrown:
  "fst (buildFlairGroupsPaginatedChunk ((mkEnv scenarioPages [] False None)\<lparr>kvFault := (\<lambda>i. i = 2)\<rparr>)
          None [] 0 0 world0)
     = Inl (KVError Get ''flairScanStartedAt'')
   \<and> length (calls (snd (buildFlairGroupsPaginatedChunk
          ((mkEnv scenarioPages [] False None)\<lparr>kvFault := (\<lambda>i. i = 2)\<rparr>) None [] 0 0 world0)))
     = 2
   \<and> kv (snd (buildFlairGroupsPaginatedChunk
          ((mkEnv scenarioPages [] False None)\<lparr>kvFault := (\<lambda>i. i = 2)\<rparr>) None [] 0 0 world0))
        ''flairScanResult'' = None
   \<and> kv (snd (buildFlairGroupsPaginatedChunk
          ((mkEnv scenarioPages [] False None)\<lparr>kvFault := (\<lambda>i. i = 2)\<rparr>) None [] 0 0 world0))
        ''flairScanPartial'' = None"
  by (simp add: run_defs scenarioPages_def)

end
